theory Spec2Isabelle
  imports Complex_Main "HOL-Library.AList"
begin

section \<open>Python values used by the dubbing pipeline\<close>

text \<open>
  The pipeline works with Python numbers and strings.  Integers are unbounded (\<open>int\<close>).
  Time stamps and durations are Python floats; they are idealised here as exact rationals
  (\<open>rat\<close>), so rounding of the binary representation is not part of the model.  A value
  that may be either an \<open>int\<close> or a \<open>float\<close> object (the end of a segment window) is a
  \<open>pynum\<close>.  Strings are byte lists.
\<close>

datatype py_error =
  RuntimeError | ValueError | OverflowError | ZeroDivisionError | KeyError | TypeError | IndexError

datatype pynum = PyInt int | PyFloat rat

fun num_val :: "pynum \<Rightarrow> rat" where
  "num_val (PyInt i) = of_int i"
| "num_val (PyFloat r) = r"

text \<open>\<open>int(x)\<close> on a finite float truncates towards zero.\<close>

definition py_int :: "rat \<Rightarrow> int" where
  "py_int d = (if 0 \<le> d then \<lfloor>d\<rfloor> else \<lceil>d\<rceil>)"

text \<open>
  \<open>min(a, b)\<close> with an \<open>int\<close> first and a \<open>float\<close> second: the builtin keeps the first
  argument unless the second is strictly smaller, so the result is the \<open>int\<close> object on a tie.
\<close>

definition py_min :: "int \<Rightarrow> rat \<Rightarrow> pynum" where
  "py_min a b = (if b < of_int a then PyFloat b else PyInt a)"

text \<open>
  \<open>range(lo, hi, step)\<close> as a list: \<open>ValueError\<close> for a zero step, otherwise the
  arithmetic progression from \<open>lo\<close> that stops before \<open>hi\<close>.
\<close>

definition py_range :: "int \<Rightarrow> int \<Rightarrow> int \<Rightarrow> py_error + int list" where
  "py_range lo hi step =
     (if step = 0 then Inl ValueError
      else if 0 < step
        then Inr (map (\<lambda>k. lo + int k * step) [0..<nat ((hi - lo + step - 1) div step)])
        else Inr (map (\<lambda>k. lo + int k * step) [0..<nat ((lo - hi - step - 1) div (- step))]))"

text \<open>Decimal rendering of integers, as \<open>str\<close> and f-strings produce it.\<close>

definition digit_char :: "nat \<Rightarrow> char" where
  "digit_char d = ''0123456789'' ! d"

fun str_nat :: "nat \<Rightarrow> string" where
  "str_nat n = (if n < 10 then [digit_char n] else str_nat (n div 10) @ [digit_char (n mod 10)])"

declare str_nat.simps [simp del]

definition str_int :: "int \<Rightarrow> string" where
  "str_int i = (if i < 0 then CHR ''-'' # str_nat (nat (- i)) else str_nat (nat i))"

text \<open>
  The text of a float inside an f-string is Python's shortest round-trip \<open>repr\<close>.  It is a
  builtin, not code of this repository, and is taken as the parameter \<open>repr_float\<close>.
\<close>

fun str_num :: "(rat \<Rightarrow> string) \<Rightarrow> pynum \<Rightarrow> string" where
  "str_num repr_float (PyInt i) = str_int i"
| "str_num repr_float (PyFloat r) = repr_float r"

text \<open>
  \<open>os.path.join\<close> on POSIX, two components at a time: an absolute second component
  replaces the first, otherwise the two are joined by one slash.
\<close>

definition path_join :: "string \<Rightarrow> string \<Rightarrow> string" where
  "path_join a b =
     (if b \<noteq> [] \<and> hd b = CHR ''/'' then b
      else if a = [] \<or> last a = CHR ''/'' then a @ b
      else a @ ''/'' @ b)"

text \<open>
  Python dictionaries keep their keys unique and in insertion order.  They are association
  lists here: \<open>map_of\<close> reads a key, \<open>AList.update\<close> stores one (in place when the key is
  present, at the end otherwise).  A list that stands for a dictionary has distinct keys.
\<close>

type_synonym ('k, 'v) dict = "('k \<times> 'v) list"

definition dict_set :: "'k \<Rightarrow> 'v \<Rightarrow> ('k, 'v) dict \<Rightarrow> ('k, 'v) dict" where
  "dict_set k v d = AList.update k v d"

definition dict_has :: "('k, 'v) dict \<Rightarrow> 'k \<Rightarrow> bool" where
  "dict_has d k = (map_of d k \<noteq> None)"

text \<open>
  \<open>str.split(sep)\<close> for a one-character separator: the pieces between the separators,
  empty pieces included, so the result is never empty.
\<close>

fun split_on :: "char \<Rightarrow> string \<Rightarrow> string list" where
  "split_on sep [] = [[]]"
| "split_on sep (c # cs) =
     (if c = sep then [] # split_on sep cs
      else (case split_on sep cs of
              [] \<Rightarrow> [[c]]
            | w # ws \<Rightarrow> (c # w) # ws))"

text \<open>
  \<open>float(s)\<close> yields a finite float, an infinity or a NaN, or raises \<open>ValueError\<close>; the
  parser is a builtin and is the parameter \<open>parse_float\<close> (\<open>None\<close> for \<open>ValueError\<close>).
  \<open>int\<close> of the result truncates a finite float, raises \<open>OverflowError\<close> on an infinity
  and \<open>ValueError\<close> on a NaN.
\<close>

datatype py_float = Finite rat | Infinity | NaN

fun int_of_float :: "py_float \<Rightarrow> py_error + int" where
  "int_of_float (Finite r) = Inr (py_int r)"
| "int_of_float Infinity = Inl OverflowError"
| "int_of_float NaN = Inl ValueError"

definition int_float :: "(string \<Rightarrow> py_float option) \<Rightarrow> string \<Rightarrow> py_error + int" where
  "int_float parse_float s =
     (case parse_float s of None \<Rightarrow> Inl ValueError | Some f \<Rightarrow> int_of_float f)"


section \<open>Segment partition of \<open>dub_video\<close>\<close>

text \<open>
  \<^verbatim>\<open>
  total_segments = ceil(duration/segment_duration)
  for start_time in range(0, int(duration), segment_duration):
      end_time = min(start_time + segment_duration, duration)
      segment_key = f"segment_{start_time}_{end_time}"
  \<close>
  \<open>duration\<close> is the float reported by the video reader, \<open>segment_duration\<close> an \<open>int\<close>
  (\<open>range\<close> accepts nothing else).
\<close>

definition total_segments :: "rat \<Rightarrow> int \<Rightarrow> py_error + int" where
  "total_segments duration segment_duration =
     (if segment_duration = 0 then Inl ZeroDivisionError
      else Inr \<lceil>duration / of_int segment_duration\<rceil>)"

definition window_of :: "rat \<Rightarrow> int \<Rightarrow> int \<Rightarrow> int \<times> pynum" where
  "window_of duration segment_duration start_time =
     (start_time, py_min (start_time + segment_duration) duration)"

definition segment_windows :: "rat \<Rightarrow> int \<Rightarrow> py_error + (int \<times> pynum) list" where
  "segment_windows duration segment_duration =
     (case py_range 0 (py_int duration) segment_duration of
        Inl e \<Rightarrow> Inl e
      | Inr starts \<Rightarrow> Inr (map (window_of duration segment_duration) starts))"

definition segment_key :: "(rat \<Rightarrow> string) \<Rightarrow> int \<Rightarrow> pynum \<Rightarrow> string" where
  "segment_key repr_float start_time end_time =
     ''segment_'' @ str_int start_time @ ''_'' @ str_num repr_float end_time"

text \<open>The length of a window in seconds.\<close>

definition window_len :: "int \<times> pynum \<Rightarrow> rat" where
  "window_len w = num_val (snd w) - of_int (fst w)"


section \<open>Timed synthesis: \<open>VoiceCloner.generate_timed_audio\<close>\<close>

text \<open>
  A \<open>SubtitleSegment\<close> carries \<open>start\<close>, \<open>end\<close> and \<open>content\<close>; the fields are prefixed
  here because \<open>end\<close> is reserved.
\<close>

record subtitle =
  sub_start :: rat
  sub_end :: rat
  sub_content :: string

text \<open>
  An \<open>AudioSegment\<close> is modelled by the sequence of pieces it was concatenated from:
  \<open>Silence d\<close> is \<open>AudioSegment.silent(duration=d)\<close> (\<open>d\<close> in milliseconds, as requested
  by the caller), \<open>Speech c\<close> a synthesized clip read back from its wav file.  A clip is
  known by its length in milliseconds and the text it was synthesized from.  The length of
  a track is the sum of the lengths of its pieces; a silence requested with a non-positive
  duration is empty.  Lengths are exact here.  The library counts whole frames and reports
  \<open>len\<close> in whole milliseconds, so the test \<open>len(final_audio) > 0\<close> of the code and the
  test \<open>0 < audio_len\<close> of the model can differ on a track that is shorter than one
  millisecond in all, or whose pieces are each shorter than one frame.
\<close>

datatype clip = Clip (clip_ms: nat) (clip_text: string)

datatype piece = Silence rat | Speech clip

type_synonym audio = "piece list"

fun piece_len :: "piece \<Rightarrow> rat" where
  "piece_len (Silence d) = max 0 d"
| "piece_len (Speech c) = of_nat (clip_ms c)"

definition audio_len :: "audio \<Rightarrow> rat" where
  "audio_len a = sum_list (map piece_len a)"

text \<open>
  One call \<open>self.tts.tts_to_file(text, file_path, speaker_wav, language="es")\<close> followed by
  the test \<open>os.path.exists(temp_speech)\<close> and \<open>AudioSegment.from_wav(temp_speech)\<close> has three
  outcomes: an exception (from the synthesizer or from reading the file), a normal return
  with no file written, or a clip.  The synthesizer is an external engine and is a
  parameter, a function of the arguments of the call.  Removing the temporary file once
  its clip has been read is taken to succeed.
\<close>

datatype synth = Synth_raises | Synth_no_file | Synth_file clip

type_synonym tts_engine = "string \<Rightarrow> string \<Rightarrow> string \<Rightarrow> synth"

text \<open>
  \<open>json.load\<close> of a profile's \<open>metadata.json\<close> followed by \<open>metadata["samples"]\<close>: the
  file is not JSON, it has no such key, or it lists sample paths.
\<close>

datatype metadata = Not_json | No_samples | Samples "string list"

text \<open>
  What a \<open>VoiceCloner\<close> sees of its surroundings: which paths exist, the directories set
  by \<open>set_work_directory\<close>, the metadata files, the synthesizer, and whether the export of
  the finished track succeeds.
\<close>

record cloner_env =
  path_exists :: "string \<Rightarrow> bool"
  samples_dir :: "string option"
  approved_dir :: "string option"
  read_metadata :: "string \<Rightarrow> metadata"
  tts :: tts_engine
  can_export :: bool

definition basename :: "string \<Rightarrow> string" where
  "basename p = rev (takeWhile (\<lambda>c. c \<noteq> CHR ''/'') (rev p))"

text \<open>
  \<^verbatim>\<open>
  if not os.path.exists(reference_audio_path):
      approved_path = os.path.join(self.approved_dir, "default", os.path.basename(reference_audio_path))
      if os.path.exists(approved_path):
          reference_audio_path = approved_path
      else:
          raise RuntimeError(f"Reference audio not found in approved samples")
  \<close>
  With no approved directory set, \<open>os.path.join\<close> raises on \<open>None\<close>; both exceptions end
  in the outer handler.
\<close>

definition resolve_reference :: "cloner_env \<Rightarrow> string \<Rightarrow> string option" where
  "resolve_reference env reference_audio_path =
     (if path_exists env reference_audio_path then Some reference_audio_path
      else case approved_dir env of
             None \<Rightarrow> None
           | Some d \<Rightarrow>
               (let approved_path = path_join (path_join d ''default'') (basename reference_audio_path)
                in if path_exists env approved_path then Some approved_path else None))"

text \<open>
  The body of the loop over \<open>enumerate(sorted_subs)\<close>, on the pair
  \<open>(final_audio, last_end)\<close>:
  \<^verbatim>\<open>
  gap = start_time - last_end if i > 0 else 0
  if gap > 0:
      silence_duration = min(gap * 1000, max_gap * 1000)
      final_audio += AudioSegment.silent(duration=silence_duration)
  temp_speech = f"temp_speech_{i}.wav"
  self.tts.tts_to_file(...)
  if os.path.exists(temp_speech):
      final_audio += speech_segment; last_end = end_time
  \<close>
  The silence is appended before the synthesizer is called, so it stays when the
  synthesizer fails.
\<close>

definition gap_of :: "nat \<Rightarrow> subtitle \<Rightarrow> rat \<Rightarrow> rat" where
  "gap_of i sub last_end = (if 0 < i then sub_start sub - last_end else 0)"

definition gap_silence :: "rat \<Rightarrow> rat \<Rightarrow> audio" where
  "gap_silence max_gap gap = (if 0 < gap then [Silence (min (gap * 1000) (max_gap * 1000))] else [])"

definition temp_speech :: "nat \<Rightarrow> string" where
  "temp_speech i = ''temp_speech_'' @ str_nat i @ ''.wav''"

definition timed_step ::
  "tts_engine \<Rightarrow> string \<Rightarrow> rat \<Rightarrow> nat \<Rightarrow> subtitle \<Rightarrow> audio \<times> rat \<Rightarrow> audio \<times> rat" where
  "timed_step engine reference max_gap i sub st =
     (let final_audio = fst st @ gap_silence max_gap (gap_of i sub (snd st))
      in case engine (sub_content sub) (temp_speech i) reference of
           Synth_raises \<Rightarrow> (final_audio, snd st)
         | Synth_no_file \<Rightarrow> (final_audio, snd st)
         | Synth_file c \<Rightarrow> (final_audio @ [Speech c], sub_end sub))"

fun timed_loop ::
  "tts_engine \<Rightarrow> string \<Rightarrow> rat \<Rightarrow> nat \<Rightarrow> subtitle list \<Rightarrow> audio \<times> rat \<Rightarrow> audio \<times> rat" where
  "timed_loop engine reference max_gap i [] st = st"
| "timed_loop engine reference max_gap i (sub # subs) st =
     timed_loop engine reference max_gap (Suc i) subs (timed_step engine reference max_gap i sub st)"

text \<open>
  The whole function: the returned flag and the file it exported, if any.
  \<open>sorted(subtitles, key=lambda x: x.start)\<close> is a stable sort, as \<open>sort_key\<close> is.
\<close>

definition sorted_subs :: "subtitle list \<Rightarrow> subtitle list" where
  "sorted_subs subtitles = sort_key sub_start subtitles"

definition generate_timed_audio ::
  "cloner_env \<Rightarrow> subtitle list \<Rightarrow> string \<Rightarrow> string \<Rightarrow> rat \<Rightarrow> bool \<times> (string \<times> audio) option" where
  "generate_timed_audio env subtitles output_path reference_audio_path max_gap =
     (case resolve_reference env reference_audio_path of
        None \<Rightarrow> (False, None)
      | Some reference \<Rightarrow>
          (let final_audio = fst (timed_loop (tts env) reference max_gap 0 (sorted_subs subtitles) ([], 0))
           in if 0 < audio_len final_audio
              then (if can_export env then (True, Some (output_path, final_audio)) else (False, None))
              else (False, None)))"

text \<open>The state of the loop when it reaches index \<open>i\<close> of the sorted list.\<close>

definition state_at :: "tts_engine \<Rightarrow> string \<Rightarrow> rat \<Rightarrow> subtitle list \<Rightarrow> nat \<Rightarrow> audio \<times> rat" where
  "state_at engine reference max_gap subs i = timed_loop engine reference max_gap 0 (take i subs) ([], 0)"

text \<open>What the call of the synthesizer at index \<open>i\<close> adds to the track.\<close>

fun speech_of :: "synth \<Rightarrow> audio" where
  "speech_of (Synth_file c) = [Speech c]"
| "speech_of Synth_raises = []"
| "speech_of Synth_no_file = []"


section \<open>Approved voice samples: \<open>VoiceCloner.load_voice_samples\<close>\<close>

text \<open>
  \<^verbatim>\<open>
  if not self.samples_dir:
      raise RuntimeError("Work directory not set")
  voice_dir = os.path.join(self.approved_dir, voice_name)
  metadata_path = os.path.join(voice_dir, "metadata.json")
  if os.path.exists(metadata_path):
      ... samples = metadata["samples"]
      if all(os.path.exists(s) for s in samples):
          return samples
  return None
  \<close>
  The result is an exception, \<open>None\<close>, or the list of samples.
\<close>

definition metadata_path :: "string \<Rightarrow> string \<Rightarrow> string" where
  "metadata_path approved voice_name = path_join (path_join approved voice_name) ''metadata.json''"

definition load_voice_samples :: "cloner_env \<Rightarrow> string \<Rightarrow> py_error + string list option" where
  "load_voice_samples env voice_name =
     (case samples_dir env of
        None \<Rightarrow> Inl RuntimeError
      | Some sd \<Rightarrow>
          if sd = [] then Inl RuntimeError
          else (case approved_dir env of
                  None \<Rightarrow> Inl TypeError
                | Some approved \<Rightarrow>
                    if path_exists env (metadata_path approved voice_name)
                    then (case read_metadata env (metadata_path approved voice_name) of
                            Not_json \<Rightarrow> Inl ValueError
                          | No_samples \<Rightarrow> Inl KeyError
                          | Samples samples \<Rightarrow>
                              if list_all (path_exists env) samples then Inr (Some samples)
                              else Inr None)
                    else Inr None))"


section \<open>Cached translation: \<open>WhisperProcessor.translate_to_spanish\<close>\<close>

text \<open>
  The translation engine either raises or returns a text (a result whose text cannot be
  stripped raises inside the same \<open>try\<close> and counts as raising).  \<open>str.strip()\<close>, which
  removes the white space of Unicode at both ends, is a builtin and is the parameter
  \<open>strip\<close>.  The processor holds the cache dictionary and the path of the cache file;
  \<open>cache_disk\<close> is the content of that file, \<open>cache_writable\<close> whether writing it succeeds
  (\<open>save_translation_cache\<close> swallows the failure).
\<close>

datatype translation = Translate_raises | Translated string

record whisper_state =
  translation_cache :: "(string, string) dict"
  cache_file :: "string option"
  cache_disk :: "(string, string) dict option"
  cache_writable :: bool

definition save_translation_cache :: "whisper_state \<Rightarrow> whisper_state" where
  "save_translation_cache st =
     (case cache_file st of
        None \<Rightarrow> st
      | Some f \<Rightarrow>
          if f \<noteq> [] \<and> translation_cache st \<noteq> [] \<and> cache_writable st
          then st\<lparr>cache_disk := Some (translation_cache st)\<rparr>
          else st)"

definition translate_to_spanish ::
  "(string \<Rightarrow> string) \<Rightarrow> (string \<Rightarrow> translation) \<Rightarrow> whisper_state \<Rightarrow> string
     \<Rightarrow> string \<times> whisper_state" where
  "translate_to_spanish strip translator st text =
     (if text = [] then (text, st)
      else case map_of (translation_cache st) text of
             Some cached \<Rightarrow> (cached, st)
           | None \<Rightarrow>
               (case translator text of
                  Translate_raises \<Rightarrow> (text, st)
                | Translated r \<Rightarrow>
                    (let translated = strip r
                     in if translated \<noteq> []
                        then (translated,
                              save_translation_cache
                                (st\<lparr>translation_cache := dict_set text translated (translation_cache st)\<rparr>))
                        else (text, st))))"


section \<open>The progress ledger: \<open>save_progress\<close> and \<open>validate_progress\<close>\<close>

text \<open>
  A ledger entry is the JSON object stored under a segment key; \<open>data.get("output")\<close> is
  \<open>None\<close> when the object has no such member.  The dubber holds the work directory, the
  ledger and the path of the ledger file.  The disk holds the set of existing paths and
  the content of the ledger file; writing may fail, which \<open>save_progress\<close> swallows.
\<close>

record segment_record =
  rec_output :: "string option"
  rec_completed :: bool

type_synonym ledger = "(string, segment_record) dict"

record dubber =
  TEMP_DIR :: string
  progress :: ledger
  progress_file :: string
  reference_audio :: "string option"

record disk =
  existing :: "string set"
  progress_json :: "ledger option"
  writable :: bool

definition save_progress :: "dubber \<Rightarrow> disk \<Rightarrow> disk" where
  "save_progress st d =
     (if writable d
      then d\<lparr>existing := insert (progress_file st) (existing d), progress_json := Some (progress st)\<rparr>
      else d)"

definition subtitle_path :: "string \<Rightarrow> string \<Rightarrow> int \<Rightarrow> int \<Rightarrow> string" where
  "subtitle_path temp_dir lang start_time end_time =
     path_join (path_join temp_dir ''subtitles'')
       (lang @ ''_'' @ str_int start_time @ ''_'' @ str_int end_time @ ''.srt'')"



text \<open>
  The body of the loop of \<open>validate_progress\<close> for one entry: \<open>Inr True\<close> when the entry is
  kept, \<open>Inr False\<close> when it is skipped (one of the \<open>continue\<close> statements, the handler of
  \<open>ValueError\<close> included), \<open>Inl e\<close> when an exception leaves the loop.  The key must split
  into exactly three parts at \<open>_\<close>; the first part is not looked at.
\<close>

definition check_entry ::
  "(string \<Rightarrow> py_float option) \<Rightarrow> string set \<Rightarrow> string \<Rightarrow> string \<times> segment_record \<Rightarrow> py_error + bool" where
  "check_entry parse_float ex temp_dir entry =
     (case rec_output (snd entry) of
        None \<Rightarrow> Inr False
      | Some output_path \<Rightarrow>
          if output_path = [] \<or> output_path \<notin> ex then Inr False
          else (case split_on CHR ''_'' (fst entry) of
                  [u, start_str, end_str] \<Rightarrow>
                    (case int_float parse_float start_str of
                       Inl e \<Rightarrow> (if e = ValueError then Inr False else Inl e)
                     | Inr start_time \<Rightarrow>
                         (case int_float parse_float end_str of
                            Inl e \<Rightarrow> (if e = ValueError then Inr False else Inl e)
                          | Inr end_time \<Rightarrow>
                              Inr (subtitle_path temp_dir ''ru'' start_time end_time \<in> ex
                                   \<and> subtitle_path temp_dir ''es'' start_time end_time \<in> ex)))
                | _ \<Rightarrow> Inr False))"

fun validate_entries ::
  "(string \<Rightarrow> py_float option) \<Rightarrow> string set \<Rightarrow> string \<Rightarrow> ledger \<Rightarrow> ledger \<Rightarrow> py_error + ledger" where
  "validate_entries parse_float ex temp_dir [] valid_progress = Inr valid_progress"
| "validate_entries parse_float ex temp_dir (entry # rest) valid_progress =
     (case check_entry parse_float ex temp_dir entry of
        Inl e \<Rightarrow> Inl e
      | Inr keep \<Rightarrow>
          validate_entries parse_float ex temp_dir rest
            (if keep then dict_set (fst entry) (snd entry) valid_progress else valid_progress))"

text \<open>
  \<open>invalid_segments = len(self.progress) - len(valid_progress)\<close>, the number the function
  prints; the function itself returns \<open>True\<close> on every path.
\<close>

definition invalid_segments :: "ledger \<Rightarrow> ledger \<Rightarrow> int" where
  "invalid_segments before valid_progress = int (length before) - int (length valid_progress)"

definition validate_progress ::
  "(string \<Rightarrow> py_float option) \<Rightarrow> dubber \<Rightarrow> disk \<Rightarrow> py_error + (bool \<times> dubber \<times> disk)" where
  "validate_progress parse_float st d =
     (if progress st = [] then Inr (True, st, d)
      else (case validate_entries parse_float (existing d) (TEMP_DIR st) (progress st) [] of
              Inl e \<Rightarrow> Inl e
            | Inr valid_progress \<Rightarrow>
                if 0 < invalid_segments (progress st) valid_progress
                then (let st' = st\<lparr>progress := valid_progress\<rparr>
                      in Inr (True, st', save_progress st' d))
                else Inr (True, st, d)))"

text \<open>The number of entries a run of \<open>validate_progress\<close> drops from the ledger.\<close>

definition dropped :: "(string \<Rightarrow> py_float option) \<Rightarrow> dubber \<Rightarrow> disk \<Rightarrow> int option" where
  "dropped parse_float st d =
     (case validate_progress parse_float st d of
        Inl e \<Rightarrow> None
      | Inr r \<Rightarrow> Some (int (length (progress st)) - int (length (progress (fst (snd r))))))"

text \<open>The entries that pass every check of the loop.\<close>

definition entry_ok ::
  "(string \<Rightarrow> py_float option) \<Rightarrow> string set \<Rightarrow> string \<Rightarrow> string \<times> segment_record \<Rightarrow> bool" where
  "entry_ok parse_float ex temp_dir entry = (check_entry parse_float ex temp_dir entry = Inr True)"


section \<open>The orchestrator: \<open>process_segment\<close> and \<open>dub_video\<close>\<close>

text \<open>
  The collaborators of the orchestrator are parameters.  \<open>voice_reference\<close> is the outcome
  of the interactive choice of the reference samples that precedes the segment loop: an
  exception, the user's cancellation (\<open>dub_video\<close> returns), or the list of samples.
  \<open>transcribe\<close> is the result of \<open>process_video_segment\<close>, which catches its own
  exceptions; \<open>merge_ok\<close> tells whether \<open>merge_audio_video\<close> returns or raises;
  \<open>ffmpeg\<close> is the exit status of the concatenation process for a manifest and an output
  path; \<open>abspath\<close> is \<open>os.path.abspath\<close>.
\<close>

datatype voice_reference = Reference_raises py_error | Reference_cancelled | Reference_ready "string list"

record dub_env =
  parse_float :: "string \<Rightarrow> py_float option"
  repr_float :: "rat \<Rightarrow> string"
  voice_reference :: voice_reference
  video_duration :: rat
  transcribe :: "int \<Rightarrow> pynum \<Rightarrow> subtitle list \<times> subtitle list"
  cloner :: cloner_env
  merge_ok :: "int \<Rightarrow> pynum \<Rightarrow> bool"
  ffmpeg :: "string list \<Rightarrow> string \<Rightarrow> int"
  abspath :: "string \<Rightarrow> string"

text \<open>
  \<open>process_segment\<close> returns the path of the merged clip, or \<open>None\<close> when a stage
  raised: \<open>generate_timed_audio\<close> returned \<open>False\<close> (also when no reference sample is
  stored), or the merge failed.
\<close>

definition temp_audio_path :: "(rat \<Rightarrow> string) \<Rightarrow> string \<Rightarrow> int \<Rightarrow> pynum \<Rightarrow> string" where
  "temp_audio_path rf temp_dir start_time end_time =
     path_join (path_join temp_dir ''audio'')
       (''temp_audio_'' @ str_int start_time @ ''_'' @ str_num rf end_time @ ''.wav'')"

definition temp_output_path :: "string \<Rightarrow> int \<Rightarrow> string" where
  "temp_output_path temp_dir start_time =
     path_join (path_join temp_dir ''video'') (''temp_output_'' @ str_int start_time @ ''.mp4'')"

definition process_segment :: "dub_env \<Rightarrow> dubber \<Rightarrow> int \<Rightarrow> pynum \<Rightarrow> string option" where
  "process_segment env st start_time end_time =
     (let es_subs = snd (transcribe env start_time end_time);
          temp_audio = temp_audio_path (repr_float env) (TEMP_DIR st) start_time end_time
      in case reference_audio st of
           None \<Rightarrow> None
         | Some reference \<Rightarrow>
             if \<not> fst (generate_timed_audio (cloner env) es_subs temp_audio reference 1) then None
             else if merge_ok env start_time end_time
               then Some (temp_output_path (TEMP_DIR st) start_time)
               else None)"

text \<open>
  The loop over the windows, on \<open>(dubbed_segments, self, disk)\<close>:
  \<^verbatim>\<open>
  if segment_key in self.progress:
      dubbed_segments.append(self.progress[segment_key]["output"])
      continue
  output = self.process_segment(input_video_path, start_time, end_time)
  if output:
      dubbed_segments.append(output)
      self.progress[segment_key] = {"output": output, "completed": True}
      self.save_progress()
  \<close>
  A window whose segment fails adds nothing and the loop goes on.  The first component of
  the result is the exception that left the loop, if any (a ledger entry without
  \<open>"output"\<close>).
\<close>

type_synonym loop_state = "string list \<times> dubber \<times> disk"

fun segment_loop :: "dub_env \<Rightarrow> (int \<times> pynum) list \<Rightarrow> loop_state \<Rightarrow> py_error option \<times> loop_state" where
  "segment_loop env [] s = (None, s)"
| "segment_loop env (w # ws) (dubbed_segments, st, d) =
     (let key = segment_key (repr_float env) (fst w) (snd w)
      in case map_of (progress st) key of
           Some data \<Rightarrow>
             (case rec_output data of
                None \<Rightarrow> (Some KeyError, (dubbed_segments, st, d))
              | Some out \<Rightarrow> segment_loop env ws (dubbed_segments @ [out], st, d))
         | None \<Rightarrow>
             (case process_segment env st (fst w) (snd w) of
                None \<Rightarrow> segment_loop env ws (dubbed_segments, st, d)
              | Some out \<Rightarrow>
                  if out = [] then segment_loop env ws (dubbed_segments, st, d)
                  else (let st' = st\<lparr>progress :=
                                   dict_set key \<lparr>rec_output = Some out, rec_completed = True\<rparr> (progress st)\<rparr>
                        in segment_loop env ws (dubbed_segments @ [out], st', save_progress st' d))))"

text \<open>
  The end of \<open>dub_video\<close>: with at least one dubbed segment the manifest is written and
  the concatenation process is run once, a non-zero exit status raising
  \<open>RuntimeError\<close>; with none, \<open>RuntimeError("No segments were successfully processed")\<close>.
  The second component is the manifest the process was started on, if it was started.
\<close>

definition concatenate :: "dub_env \<Rightarrow> string list \<Rightarrow> string \<Rightarrow> py_error option \<times> string list option" where
  "concatenate env dubbed_segments output_video_path =
     (if dubbed_segments \<noteq> []
      then (let manifest = map (abspath env) dubbed_segments
            in (if ffmpeg env manifest output_video_path = 0 then None else Some RuntimeError,
                Some manifest))
      else (Some RuntimeError, None))"

text \<open>
  A run of \<open>dub_video\<close> on a dubber whose work directory is set up and whose processors
  are initialised: the exception it ends with, whether the user cancelled, the manifest
  handed to the concatenation, and the dubber and the disk at the end.  Opening the video
  to read its duration is taken to succeed.  The disk records the ledger file; the clips
  and subtitle files that the segments write are not tracked, since the run never asks
  for them.
\<close>

record run =
  run_error :: "py_error option"
  run_cancelled :: bool
  run_concat :: "string list option"
  run_dubber :: dubber
  run_disk :: disk

definition stopped :: "py_error \<Rightarrow> dubber \<Rightarrow> disk \<Rightarrow> run" where
  "stopped e st d =
     \<lparr>run_error = Some e, run_cancelled = False, run_concat = None, run_dubber = st, run_disk = d\<rparr>"

definition dub_video :: "dub_env \<Rightarrow> dubber \<Rightarrow> disk \<Rightarrow> string \<Rightarrow> int \<Rightarrow> run" where
  "dub_video env st d output_video_path segment_duration =
     (case validate_progress (parse_float env) st d of
        Inl e \<Rightarrow> stopped e st d
      | Inr v \<Rightarrow>
          (let st1 = fst (snd v); d1 = snd (snd v)
           in case voice_reference env of
                Reference_raises e \<Rightarrow> stopped e st1 d1
              | Reference_cancelled \<Rightarrow>
                  \<lparr>run_error = None, run_cancelled = True, run_concat = None,
                   run_dubber = st1, run_disk = d1\<rparr>
              | Reference_ready samples \<Rightarrow>
                  (case samples of
                     [] \<Rightarrow> stopped IndexError st1 d1
                   | reference # others \<Rightarrow>
                       (let st2 = st1\<lparr>reference_audio := Some reference\<rparr>
                        in case total_segments (video_duration env) segment_duration of
                             Inl e \<Rightarrow> stopped e st2 d1
                           | Inr shown_total \<Rightarrow>
                               (case segment_windows (video_duration env) segment_duration of
                                  Inl e \<Rightarrow> stopped e st2 d1
                                | Inr windows \<Rightarrow>
                                    (case segment_loop env windows ([], st2, d1) of
                                       (Some e, (dubbed_segments, st3, d3)) \<Rightarrow> stopped e st3 d3
                                     | (None, (dubbed_segments, st3, d3)) \<Rightarrow>
                                         (let c = concatenate env dubbed_segments output_video_path
                                          in \<lparr>run_error = fst c, run_cancelled = False,
                                              run_concat = snd c, run_dubber = st3,
                                              run_disk = d3\<rparr>)))))))"


text \<open>
  A window has an output, in a given state of the dubber, when its key is in the ledger
  or \<open>process_segment\<close> returns a path for it; \<open>window_output\<close> is that output, the
  path recorded in the ledger or else the path that \<open>process_segment\<close> returns.
\<close>

definition window_key :: "dub_env \<Rightarrow> int \<times> pynum \<Rightarrow> string" where
  "window_key env w = segment_key (repr_float env) (fst w) (snd w)"

definition has_output :: "dub_env \<Rightarrow> dubber \<Rightarrow> int \<times> pynum \<Rightarrow> bool" where
  "has_output env st w =
     (dict_has (progress st) (window_key env w)
      \<or> (case process_segment env st (fst w) (snd w) of
            None \<Rightarrow> False
          | Some out \<Rightarrow> out \<noteq> []))"

definition window_output :: "dub_env \<Rightarrow> dubber \<Rightarrow> int \<times> pynum \<Rightarrow> string option" where
  "window_output env st w =
     (case map_of (progress st) (window_key env w) of
        Some data \<Rightarrow> rec_output data
      | None \<Rightarrow>
          (case process_segment env st (fst w) (snd w) of
             None \<Rightarrow> None
           | Some out \<Rightarrow> if out = [] then None else Some out))"


section \<open>Sample builtins for examples\<close>

text \<open>
  Instances of the two builtin parameters, for evaluating the model on concrete inputs.
  \<open>repr_decimal\<close> writes a number with a finite decimal expansion the way Python writes
  the float nearest to it when the expansion is short (\<open>700.5\<close>, \<open>700.0\<close>).
  \<open>parse_decimal\<close> reads plain decimal numerals and the names \<open>inf\<close> and \<open>nan\<close>, which
  \<open>float\<close> reads to the same values; it refuses every other string.  \<open>ascii_strip\<close>
  removes the white space of ASCII at both ends, as \<open>str.strip()\<close> does on a text that
  has no other white space.
\<close>

definition is_space :: "char \<Rightarrow> bool" where
  "is_space c = (c \<in> set [CHR 0x09, CHR 0x0A, CHR 0x0B, CHR 0x0C, CHR 0x0D,
                            CHR 0x1C, CHR 0x1D, CHR 0x1E, CHR 0x1F, CHR 0x20])"

definition ascii_strip :: "string \<Rightarrow> string" where
  "ascii_strip s = rev (dropWhile is_space (rev (dropWhile is_space s)))"

fun frac_digits :: "nat \<Rightarrow> rat \<Rightarrow> string" where
  "frac_digits 0 r = []"
| "frac_digits (Suc n) r =
     (if r = 0 then []
      else digit_char (nat \<lfloor>r * 10\<rfloor>) # frac_digits n (r * 10 - of_int \<lfloor>r * 10\<rfloor>))"

definition repr_decimal :: "rat \<Rightarrow> string" where
  "repr_decimal r =
     (let a = \<bar>r\<bar>; whole = \<lfloor>a\<rfloor>; part = a - of_int whole
      in (if r < 0 then ''-'' else []) @ str_nat (nat whole) @ ''.''
         @ (if part = 0 then ''0'' else frac_digits 17 part))"

definition digit_val :: "char \<Rightarrow> nat option" where
  "digit_val c =
     (if (48::nat) \<le> of_char c \<and> of_char c \<le> (57::nat) then Some (of_char c - 48) else None)"

fun read_digits :: "string \<Rightarrow> nat \<Rightarrow> nat option" where
  "read_digits [] acc = Some acc"
| "read_digits (c # cs) acc =
     (case digit_val c of None \<Rightarrow> None | Some v \<Rightarrow> read_digits cs (acc * 10 + v))"

definition parse_decimal :: "string \<Rightarrow> py_float option" where
  "parse_decimal s =
     (if s = ''inf'' then Some Infinity
      else if s = ''nan'' then Some NaN
      else (case split_on CHR ''.'' s of
              [w] \<Rightarrow> (if w = [] then None
                       else map_option (\<lambda>n. Finite (of_nat n)) (read_digits w 0))
            | [w, f] \<Rightarrow>
                (if w = [] \<or> f = [] then None
                 else (case (read_digits w 0, read_digits f 0) of
                         (Some a, Some b) \<Rightarrow> Some (Finite (of_nat a + of_nat b / 10 ^ length f))
                       | _ \<Rightarrow> None))
            | _ \<Rightarrow> None))"


section \<open>Sample inputs\<close>

text \<open>
  The two subtitles of the specification's example, a synthesizer that always produces a
  clip, one that always raises, and a cloner whose reference sample \<open>ref.wav\<close> exists.
\<close>

definition two_subs :: "subtitle list" where
  "two_subs = [\<lparr>sub_start = 0, sub_end = 2, sub_content = ''a''\<rparr>,
               \<lparr>sub_start = 3, sub_end = 4, sub_content = ''b''\<rparr>]"

definition clip_engine :: tts_engine where
  "clip_engine text file_path speaker_wav = Synth_file (Clip 900 text)"

definition mute_engine :: tts_engine where
  "mute_engine text file_path speaker_wav = Synth_raises"

definition sample_cloner :: "tts_engine \<Rightarrow> cloner_env" where
  "sample_cloner engine =
     \<lparr>path_exists = (\<lambda>p. p = ''ref.wav''),
      samples_dir = Some ''work/voice_references'',
      approved_dir = Some ''work/voice_references/approved'',
      read_metadata = (\<lambda>p. Not_json),
      tts = engine,
      can_export = True\<rparr>"

text \<open>A synthesizer that writes no file for any text but \<open>b\<close>.\<close>

definition second_only :: tts_engine where
  "second_only text file_path speaker_wav =
     (if text = ''b'' then Synth_file (Clip 900 text) else Synth_no_file)"

text \<open>
  A processor with one cached translation, a translation engine that always raises, and
  one that returns only white space.
\<close>

definition sample_whisper :: whisper_state where
  "sample_whisper =
     \<lparr>translation_cache = [(''da'', ''si'')],
      cache_file = Some ''work/translation_cache.json'',
      cache_disk = Some [(''da'', ''si'')],
      cache_writable = True\<rparr>"

definition failing_translator :: "string \<Rightarrow> translation" where
  "failing_translator text = Translate_raises"

definition blank_translator :: "string \<Rightarrow> translation" where
  "blank_translator text = Translated ''  ''"

text \<open>
  A cloner whose profile \<open>default\<close> lists two samples of which only the first exists, and
  one whose profile lists a single sample that exists.
\<close>

definition profile_cloner :: "string list \<Rightarrow> cloner_env" where
  "profile_cloner listed =
     \<lparr>path_exists = (\<lambda>p. p \<in> set [''work/voice_references/approved/default/metadata.json'',
                                     ''work/voice_references/approved/default/reference_1.wav'']),
      samples_dir = Some ''work/voice_references'',
      approved_dir = Some ''work/voice_references/approved'',
      read_metadata = (\<lambda>p. Samples listed),
      tts = mute_engine,
      can_export = True\<rparr>"

text \<open>
  A dubber in the work directory \<open>work\<close> whose ledger has three entries, and a disk on
  which only the first entry has its merged clip and both subtitle files: the clip of the
  second entry is gone, and so are the subtitle files of the third.
\<close>

definition sample_ledger :: ledger where
  "sample_ledger =
     [(''segment_0_300'', \<lparr>rec_output = Some ''work/video/temp_output_0.mp4'', rec_completed = True\<rparr>),
      (''segment_300_600'', \<lparr>rec_output = Some ''work/video/temp_output_300.mp4'', rec_completed = True\<rparr>),
      (''segment_600_900'', \<lparr>rec_output = Some ''work/video/temp_output_600.mp4'', rec_completed = True\<rparr>)]"

definition sample_dubber :: dubber where
  "sample_dubber =
     \<lparr>TEMP_DIR = ''work'', progress = sample_ledger, progress_file = ''work/progress.json'',
      reference_audio = None\<rparr>"

definition sample_disk :: disk where
  "sample_disk =
     \<lparr>existing = set [''work/progress.json'',
                       ''work/video/temp_output_0.mp4'',
                       ''work/subtitles/ru_0_300.srt'',
                       ''work/subtitles/es_0_300.srt'',
                       ''work/video/temp_output_600.mp4''],
      progress_json = Some sample_ledger,
      writable = True\<rparr>"

text \<open>
  A run of the orchestrator on a video of 700.5 seconds: a fresh work directory, a
  reference sample that was approved, a transcription that yields the two sample subtitles
  for every window except those whose start is listed as silent, a synthesizer and a merge
  that succeed, and a concatenation that exits with status 0.
\<close>

definition fresh_dubber :: dubber where
  "fresh_dubber =
     \<lparr>TEMP_DIR = ''work'', progress = [], progress_file = ''work/progress.json'',
      reference_audio = None\<rparr>"

definition fresh_disk :: disk where
  "fresh_disk = \<lparr>existing = set [], progress_json = None, writable = True\<rparr>"

definition sample_env :: "int list \<Rightarrow> dub_env" where
  "sample_env silent_starts =
     \<lparr>parse_float = parse_decimal,
      repr_float = repr_decimal,
      voice_reference = Reference_ready [''ref.wav''],
      video_duration = 1401 / 2,
      transcribe = (\<lambda>start_time end_time.
         if start_time \<in> set silent_starts then ([], []) else (two_subs, two_subs)),
      cloner = sample_cloner clip_engine,
      merge_ok = (\<lambda>start_time end_time. True),
      ffmpeg = (\<lambda>manifest output_video_path. 0),
      abspath = (\<lambda>p. ''/srv/'' @ p)\<rparr>"


section \<open>Properties of the timed synthesis\<close>

lemma timed_loop_append:
  "timed_loop e r m i (xs @ ys) st = timed_loop e r m (i + length xs) ys (timed_loop e r m i xs st)"
  by (induction xs arbitrary: i st) simp_all

lemma state_at_Suc:
  assumes "i < length subs"
  shows "state_at e r m subs (Suc i) = timed_step e r m i (subs ! i) (state_at e r m subs i)"
proof -
  have "take (Suc i) subs = take i subs @ [subs ! i]"
    using assms by (simp add: take_Suc_conv_app_nth)
  moreover have "length (take i subs) = i"
    using assms by simp
  ultimately show ?thesis
    by (simp add: state_at_def timed_loop_append)
qed

lemma state_at_rest:
  assumes "i \<le> length subs"
  shows "timed_loop e r m 0 subs ([], 0) = timed_loop e r m i (drop i subs) (state_at e r m subs i)"
proof -
  have "timed_loop e r m 0 (take i subs @ drop i subs) ([], 0)
        = timed_loop e r m (0 + length (take i subs)) (drop i subs) (state_at e r m subs i)"
    unfolding state_at_def by (rule timed_loop_append)
  then show ?thesis using assms by simp
qed

lemma silence_ms: "min (g * 1000) (m * 1000) = 1000 * min g (m::rat)"
  by (simp add: min_def)

lemma gap_silence_seconds:
  "gap_silence m g = (if 0 < g then [Silence (1000 * min g m)] else [])"
  by (simp only: gap_silence_def silence_ms)

lemma timed_step_audio:
  "fst (timed_step e r m i sub st) =
     fst st @ gap_silence m (gap_of i sub (snd st)) @ speech_of (e (sub_content sub) (temp_speech i) r)"
  by (simp add: timed_step_def Let_def split: synth.splits)

lemma timed_step_last_end:
  "snd (timed_step e r m i sub st) =
     (case e (sub_content sub) (temp_speech i) r of Synth_file c \<Rightarrow> sub_end sub | _ \<Rightarrow> snd st)"
  by (simp add: timed_step_def Let_def split: synth.splits)

lemma timed_loop_extends: "\<exists>more. fst (timed_loop e r m i subs st) = fst st @ more"
proof (induction subs arbitrary: i st)
  case Nil
  show ?case by simp
next
  case (Cons sub subs)
  obtain more where "fst (timed_loop e r m (Suc i) subs (timed_step e r m i sub st))
      = fst (timed_step e r m i sub st) @ more"
    using Cons.IH by blast
  then show ?case by (simp add: timed_step_audio)
qed

lemma piece_len_nonneg: "0 \<le> piece_len p"
  by (cases p) simp_all

lemma audio_len_nonneg: "0 \<le> audio_len a"
  unfolding audio_len_def by (induction a) (simp_all add: piece_len_nonneg)

lemma audio_len_member:
  assumes "p \<in> set a"
  shows "piece_len p \<le> audio_len a"
proof -
  obtain xs ys where "a = xs @ p # ys"
    using assms by (auto simp: in_set_conv_decomp)
  then have "audio_len a = audio_len xs + piece_len p + audio_len ys"
    by (simp add: audio_len_def)
  then show ?thesis
    using audio_len_nonneg [of xs] audio_len_nonneg [of ys] by linarith
qed

text \<open>
  Claim C3.  When the loop of \<open>generate_timed_audio\<close> handles the subtitle at index \<open>i\<close> of
  the sorted list, it appends to the track first a silence, then the clip of that subtitle
  if the synthesis produced one.  The silence is absent at index 0, and absent when the
  gap \<open>start - last_end\<close> is not positive; otherwise it lasts \<open>min gap max_gap\<close> seconds
  (1000 times as many milliseconds).  For the subtitles \<open>(0, 2, a)\<close> and \<open>(3, 4, b)\<close> with
  \<open>max_gap = 1\<close>, a reference sample that is found, both clips synthesized and an export
  that succeeds, \<open>generate_timed_audio\<close> returns \<open>True\<close> and the exported track is the
  first clip, one second of silence, and the second clip, with nothing before the first
  clip.
\<close>

theorem gap_silence_capped:
  "(\<forall>i < length subs.
      fst (state_at e r m subs (Suc i)) =
        fst (state_at e r m subs i)
        @ (if 0 < i \<and> 0 < sub_start (subs ! i) - snd (state_at e r m subs i)
           then [Silence (1000 * min (sub_start (subs ! i) - snd (state_at e r m subs i)) m)]
           else [])
        @ speech_of (e (sub_content (subs ! i)) (temp_speech i) r))
   \<and> (resolve_reference env reference_audio_path = Some reference \<longrightarrow> can_export env \<longrightarrow>
      tts env ''a'' (temp_speech 0) reference = Synth_file ca \<longrightarrow>
      tts env ''b'' (temp_speech 1) reference = Synth_file cb \<longrightarrow>
        generate_timed_audio env
          [\<lparr>sub_start = 0, sub_end = 2, sub_content = ''a''\<rparr>,
           \<lparr>sub_start = 3, sub_end = 4, sub_content = ''b''\<rparr>] output_path reference_audio_path 1
          = (True, Some (output_path, [Speech ca, Silence 1000, Speech cb])))"
proof (intro conjI allI impI)
  fix i assume i: "i < length subs"
  show "fst (state_at e r m subs (Suc i)) =
        fst (state_at e r m subs i)
        @ (if 0 < i \<and> 0 < sub_start (subs ! i) - snd (state_at e r m subs i)
           then [Silence (1000 * min (sub_start (subs ! i) - snd (state_at e r m subs i)) m)]
           else [])
        @ speech_of (e (sub_content (subs ! i)) (temp_speech i) r)"
    unfolding state_at_Suc [OF i] timed_step_audio gap_silence_seconds gap_of_def
    by simp
next
  assume ref: "resolve_reference env reference_audio_path = Some reference"
    and ex: "can_export env"
    and a: "tts env ''a'' (temp_speech 0) reference = Synth_file ca"
    and b: "tts env ''b'' (temp_speech 1) reference = Synth_file cb"
  have track: "fst (timed_loop (tts env) reference 1 0
               (sorted_subs [\<lparr>sub_start = 0, sub_end = 2, sub_content = ''a''\<rparr>,
                             \<lparr>sub_start = 3, sub_end = 4, sub_content = ''b''\<rparr>]) ([], 0))
          = [Speech ca, Silence 1000, Speech cb]"
    using a b by (simp add: sorted_subs_def timed_step_def gap_silence_def gap_of_def)
  have "0 < audio_len [Speech ca, Silence 1000, Speech cb]"
    by (simp add: audio_len_def add_pos_nonneg)
  then show "generate_timed_audio env
          [\<lparr>sub_start = 0, sub_end = 2, sub_content = ''a''\<rparr>,
           \<lparr>sub_start = 3, sub_end = 4, sub_content = ''b''\<rparr>] output_path reference_audio_path 1
          = (True, Some (output_path, [Speech ca, Silence 1000, Speech cb]))"
    unfolding generate_timed_audio_def using ref ex by (simp add: track)
qed

theorem gap_silence_capped_witness:
  "(1::nat) < length two_subs
   \<and> fst (state_at clip_engine ''ref.wav'' 1 two_subs 1) = [Speech (Clip 900 ''a'')]
   \<and> fst (state_at clip_engine ''ref.wav'' 1 two_subs 2)
       = [Speech (Clip 900 ''a''), Silence 1000, Speech (Clip 900 ''b'')]
   \<and> generate_timed_audio (sample_cloner clip_engine) two_subs ''out.wav'' ''ref.wav'' 1
       = (True, Some (''out.wav'', [Speech (Clip 900 ''a''), Silence 1000, Speech (Clip 900 ''b'')]))"
proof -
  have len: "(1::nat) < length two_subs"
    by (simp add: two_subs_def)
  have ref: "resolve_reference (sample_cloner clip_engine) ''ref.wav'' = Some ''ref.wav''"
    by (simp add: resolve_reference_def sample_cloner_def)
  have ex: "can_export (sample_cloner clip_engine)"
    by (simp add: sample_cloner_def)
  have a: "tts (sample_cloner clip_engine) ''a'' (temp_speech 0) ''ref.wav'' = Synth_file (Clip 900 ''a'')"
    and b: "tts (sample_cloner clip_engine) ''b'' (temp_speech 1) ''ref.wav'' = Synth_file (Clip 900 ''b'')"
    by (simp_all add: clip_engine_def sample_cloner_def)
  have first: "state_at clip_engine ''ref.wav'' 1 two_subs 1 = ([Speech (Clip 900 ''a'')], 2)"
    by (simp add: state_at_def two_subs_def timed_step_def gap_of_def gap_silence_def clip_engine_def)
  note inst = gap_silence_capped [where subs = two_subs and e = clip_engine and r = "''ref.wav''"
      and m = 1 and env = "sample_cloner clip_engine" and reference_audio_path = "''ref.wav''"
      and reference = "''ref.wav''" and ca = "Clip 900 ''a''" and cb = "Clip 900 ''b''"
      and output_path = "''out.wav''"]
  note step = inst [THEN conjunct1, rule_format, OF len]
  note whole = inst [THEN conjunct2, rule_format, OF ref ex a b]
  have second: "fst (state_at clip_engine ''ref.wav'' 1 two_subs 2)
       = [Speech (Clip 900 ''a''), Silence 1000, Speech (Clip 900 ''b'')]"
    using step unfolding first by (simp add: two_subs_def clip_engine_def numeral_2_eq_2)
  show ?thesis
    using len first second whole by (simp add: two_subs_def)
qed

lemma clip_stays:
  assumes i: "i < length subs"
    and c: "e (sub_content (subs ! i)) (temp_speech i) r = Synth_file c"
  shows "Speech c \<in> set (fst (timed_loop e r m 0 subs ([], 0)))"
proof -
  have "Speech c \<in> set (fst (state_at e r m subs (Suc i)))"
    by (simp add: state_at_Suc [OF i] timed_step_audio c)
  moreover obtain more where
    "fst (timed_loop e r m (Suc i) (drop (Suc i) subs) (state_at e r m subs (Suc i)))
       = fst (state_at e r m subs (Suc i)) @ more"
    using timed_loop_extends by blast
  moreover have "timed_loop e r m 0 subs ([], 0)
      = timed_loop e r m (Suc i) (drop (Suc i) subs) (state_at e r m subs (Suc i))"
    using i by (intro state_at_rest) simp
  ultimately show ?thesis by simp
qed

text \<open>
  Claim C7.  When the synthesis for the subtitle at index \<open>i\<close> fails (the synthesizer
  raises, or returns without a file), \<open>last_end\<close> keeps its value and no clip is appended;
  when it succeeds, \<open>last_end\<close> becomes the \<open>end\<close> stamp of the subtitle, whatever the
  length of the clip.  Either way the loop goes on with the subtitles after index \<open>i\<close>,
  and a clip that was synthesized is in the final track.  For the whole function: if the
  reference sample is found, the export succeeds and some subtitle yields a clip of
  positive length, \<open>generate_timed_audio\<close> returns \<open>True\<close> and exports a track that holds
  that clip, however many other subtitles failed.
\<close>

theorem failed_subtitle_skipped:
  "(\<forall>i < length subs.
      (e (sub_content (subs ! i)) (temp_speech i) r = Synth_raises
         \<or> e (sub_content (subs ! i)) (temp_speech i) r = Synth_no_file \<longrightarrow>
       snd (state_at e r m subs (Suc i)) = snd (state_at e r m subs i)
       \<and> fst (state_at e r m subs (Suc i)) =
           fst (state_at e r m subs i)
           @ gap_silence m (gap_of i (subs ! i) (snd (state_at e r m subs i))))
    \<and> (\<forall>c. e (sub_content (subs ! i)) (temp_speech i) r = Synth_file c \<longrightarrow>
           snd (state_at e r m subs (Suc i)) = sub_end (subs ! i)
           \<and> Speech c \<in> set (fst (timed_loop e r m 0 subs ([], 0))))
    \<and> timed_loop e r m 0 subs ([], 0) =
        timed_loop e r m (Suc i) (drop (Suc i) subs) (state_at e r m subs (Suc i)))
   \<and> (\<forall>i c reference.
        resolve_reference env reference_audio_path = Some reference \<longrightarrow>
        can_export env \<longrightarrow>
        i < length (sorted_subs subtitles) \<longrightarrow>
        tts env (sub_content (sorted_subs subtitles ! i)) (temp_speech i) reference = Synth_file c \<longrightarrow>
        0 < clip_ms c \<longrightarrow>
        (\<exists>track. generate_timed_audio env subtitles output_path reference_audio_path max_gap
                   = (True, Some (output_path, track))
                 \<and> Speech c \<in> set track))"
proof (intro conjI allI impI)
  fix i assume i: "i < length subs"
  assume "e (sub_content (subs ! i)) (temp_speech i) r = Synth_raises
         \<or> e (sub_content (subs ! i)) (temp_speech i) r = Synth_no_file"
  then show "snd (state_at e r m subs (Suc i)) = snd (state_at e r m subs i)"
    and "fst (state_at e r m subs (Suc i)) =
           fst (state_at e r m subs i)
           @ gap_silence m (gap_of i (subs ! i) (snd (state_at e r m subs i)))"
    by (auto simp: state_at_Suc [OF i] timed_step_audio timed_step_last_end)
next
  fix i c assume i: "i < length subs"
    and c: "e (sub_content (subs ! i)) (temp_speech i) r = Synth_file c"
  show "snd (state_at e r m subs (Suc i)) = sub_end (subs ! i)"
    by (simp add: state_at_Suc [OF i] timed_step_last_end c)
  show "Speech c \<in> set (fst (timed_loop e r m 0 subs ([], 0)))"
    using i c by (rule clip_stays)
next
  fix i assume i: "i < length subs"
  then show "timed_loop e r m 0 subs ([], 0) =
        timed_loop e r m (Suc i) (drop (Suc i) subs) (state_at e r m subs (Suc i))"
    by (intro state_at_rest) simp
next
  fix i c reference
  assume ref: "resolve_reference env reference_audio_path = Some reference"
    and ex: "can_export env"
    and i: "i < length (sorted_subs subtitles)"
    and c: "tts env (sub_content (sorted_subs subtitles ! i)) (temp_speech i) reference = Synth_file c"
    and pos: "0 < clip_ms c"
  let ?track = "fst (timed_loop (tts env) reference max_gap 0 (sorted_subs subtitles) ([], 0))"
  have mem: "Speech c \<in> set ?track"
    using i c by (rule clip_stays)
  have "piece_len (Speech c) \<le> audio_len ?track"
    using mem by (rule audio_len_member)
  then have "0 < audio_len ?track"
    using pos by simp
  then have "generate_timed_audio env subtitles output_path reference_audio_path max_gap
               = (True, Some (output_path, ?track))"
    by (simp add: generate_timed_audio_def ref ex)
  then show "\<exists>track. generate_timed_audio env subtitles output_path reference_audio_path max_gap
                   = (True, Some (output_path, track))
                 \<and> Speech c \<in> set track"
    using mem by blast
qed

theorem failed_subtitle_skipped_witness:
  "snd (state_at second_only ''ref.wav'' 1 two_subs 1) = snd (state_at second_only ''ref.wav'' 1 two_subs 0)
   \<and> fst (state_at second_only ''ref.wav'' 1 two_subs 1) = []
   \<and> snd (state_at second_only ''ref.wav'' 1 two_subs 2) = 4
   \<and> Speech (Clip 900 ''b'') \<in> set (fst (timed_loop second_only ''ref.wav'' 1 0 two_subs ([], 0)))
   \<and> fst (generate_timed_audio (sample_cloner second_only) two_subs ''out.wav'' ''ref.wav'' 1)"
proof -
  note inst = failed_subtitle_skipped [where subs = two_subs and e = second_only
      and r = "''ref.wav''" and m = 1 and env = "sample_cloner second_only"
      and reference_audio_path = "''ref.wav''" and subtitles = two_subs
      and output_path = "''out.wav''" and max_gap = 1]
  note per_index = inst [THEN conjunct1, rule_format]
  note whole = inst [THEN conjunct2, rule_format]
  have l0: "0 < length two_subs" and l1: "1 < length two_subs"
    by (simp_all add: two_subs_def)
  have f0: "second_only (sub_content (two_subs ! 0)) (temp_speech 0) ''ref.wav'' = Synth_no_file"
    by (simp add: two_subs_def second_only_def)
  have f1: "second_only (sub_content (two_subs ! 1)) (temp_speech 1) ''ref.wav'' = Synth_file (Clip 900 ''b'')"
    by (simp add: two_subs_def second_only_def)
  have at0: "state_at second_only ''ref.wav'' 1 two_subs 0 = ([], 0)"
    by (simp add: state_at_def)
  have skip: "snd (state_at second_only ''ref.wav'' 1 two_subs (Suc 0))
                = snd (state_at second_only ''ref.wav'' 1 two_subs 0)
              \<and> fst (state_at second_only ''ref.wav'' 1 two_subs (Suc 0))
                = fst (state_at second_only ''ref.wav'' 1 two_subs 0)
                  @ gap_silence 1 (gap_of 0 (two_subs ! 0) (snd (state_at second_only ''ref.wav'' 1 two_subs 0)))"
    using per_index [OF l0, THEN conjunct1] f0 by blast
  have adv: "snd (state_at second_only ''ref.wav'' 1 two_subs (Suc 1)) = sub_end (two_subs ! 1)
              \<and> Speech (Clip 900 ''b'') \<in> set (fst (timed_loop second_only ''ref.wav'' 1 0 two_subs ([], 0)))"
    using per_index [OF l1, THEN conjunct2, THEN conjunct1] f1 by blast
  have ref: "resolve_reference (sample_cloner second_only) ''ref.wav'' = Some ''ref.wav''"
    by (simp add: resolve_reference_def sample_cloner_def)
  have sorted: "sorted_subs two_subs = two_subs"
    by (simp add: sorted_subs_def two_subs_def)
  have "\<exists>track. generate_timed_audio (sample_cloner second_only) two_subs ''out.wav'' ''ref.wav'' 1
                   = (True, Some (''out.wav'', track))
                 \<and> Speech (Clip 900 ''b'') \<in> set track"
  proof (rule whole [where i = 1 and c = "Clip 900 ''b''" and reference = "''ref.wav''"])
    show "resolve_reference (sample_cloner second_only) ''ref.wav'' = Some ''ref.wav''"
      by (rule ref)
    show "can_export (sample_cloner second_only)"
      by (simp add: sample_cloner_def)
    show "1 < length (sorted_subs two_subs)"
      using l1 by (simp add: sorted)
    show "tts (sample_cloner second_only) (sub_content (sorted_subs two_subs ! 1)) (temp_speech 1) ''ref.wav''
            = Synth_file (Clip 900 ''b'')"
      using f1 by (simp add: sorted sample_cloner_def)
    show "0 < clip_ms (Clip 900 ''b'')"
      by simp
  qed
  then have ret: "fst (generate_timed_audio (sample_cloner second_only) two_subs ''out.wav'' ''ref.wav'' 1)"
    by auto
  have e1: "sub_end (two_subs ! 1) = 4"
    by (simp add: two_subs_def)
  have c1: "snd (state_at second_only ''ref.wav'' 1 two_subs 1)
              = snd (state_at second_only ''ref.wav'' 1 two_subs 0)"
    using skip by simp
  have c2: "fst (state_at second_only ''ref.wav'' 1 two_subs 1) = []"
    using skip by (simp add: at0 gap_of_def gap_silence_def)
  have c3: "snd (state_at second_only ''ref.wav'' 1 two_subs 2) = 4"
    using adv e1 by (simp add: numeral_2_eq_2)
  show ?thesis
    using c1 c2 c3 adv ret by blast
qed

text \<open>
  Claim C1, evaluated where the code departs from it.  Both subtitles of the example fail
  to synthesize (the synthesizer raises each time).  The silence for the gap before the
  second subtitle has already been appended when its synthesis fails, so the track is one
  second long: \<open>generate_timed_audio\<close> returns \<open>True\<close> and exports a file that holds
  nothing but that silence.
\<close>

theorem all_failed_still_exports:
  "generate_timed_audio (sample_cloner mute_engine) two_subs ''out.wav'' ''ref.wav'' 1
     = (True, Some (''out.wav'', [Silence 1000]))"
  by code_simp

text \<open>
  Whatever the synthesizer does, \<open>generate_timed_audio\<close> returns \<open>True\<close> exactly when it
  exports a file, the file is written to the output path, and the exported track has a
  length greater than zero.
\<close>

theorem export_needs_audio:
  "(fst (generate_timed_audio env subtitles output_path reference_audio_path max_gap)
      \<longleftrightarrow> snd (generate_timed_audio env subtitles output_path reference_audio_path max_gap) \<noteq> None)
   \<and> (\<forall>p track. snd (generate_timed_audio env subtitles output_path reference_audio_path max_gap)
                      = Some (p, track)
          \<longrightarrow> p = output_path \<and> 0 < audio_len track)"
  by (auto simp: generate_timed_audio_def Let_def split: option.splits if_splits)

theorem export_needs_audio_witness:
  "fst (generate_timed_audio (sample_cloner clip_engine) two_subs ''out.wav'' ''ref.wav'' 1)
   \<and> 0 < audio_len [Speech (Clip 900 ''a''), Silence 1000, Speech (Clip 900 ''b'')]"
proof -
  have run: "generate_timed_audio (sample_cloner clip_engine) two_subs ''out.wav'' ''ref.wav'' 1
      = (True, Some (''out.wav'', [Speech (Clip 900 ''a''), Silence 1000, Speech (Clip 900 ''b'')]))"
    by code_simp
  then have "snd (generate_timed_audio (sample_cloner clip_engine) two_subs ''out.wav'' ''ref.wav'' 1)
      = Some (''out.wav'', [Speech (Clip 900 ''a''), Silence 1000, Speech (Clip 900 ''b'')])"
    by simp
  then have "0 < audio_len [Speech (Clip 900 ''a''), Silence 1000, Speech (Clip 900 ''b'')]"
    using export_needs_audio [of "sample_cloner clip_engine" two_subs "''out.wav''" "''ref.wav''" 1]
    by blast
  then show ?thesis
    using run by simp
qed


section \<open>Properties of the segment partition\<close>

text \<open>
  Claim C4, evaluated where the code departs from it.  For a video of 600.5 seconds and
  windows of 300 seconds the loop runs over \<open>range(0, 600, 300)\<close>: the windows are
  \<open>[0, 300)\<close> and \<open>[300, 600)\<close>, and the last half second belongs to no window, while
  \<open>total_segments\<close>, computed from the same two numbers, is 3.
\<close>

theorem fractional_tail_not_covered:
  "segment_windows (1201 / 2) 300 = Inr [(0, PyInt 300), (300, PyInt 600)]
   \<and> total_segments (1201 / 2) 300 = Inr 3"
  by code_simp

lemma ceil_div_bounds:
  fixes m W :: int
  assumes "0 < W"
  shows "((m + W - 1) div W - 1) * W < m" and "m \<le> (m + W - 1) div W * W"
proof -
  let ?q = "(m + W - 1) div W" and ?r = "(m + W - 1) mod W"
  have eq: "?q * W + ?r = m + W - 1"
    by (rule div_mult_mod_eq)
  have r: "0 \<le> ?r" "?r < W"
    using assms by simp_all
  have "(?q - 1) * W = ?q * W - W"
    by (simp add: algebra_simps)
  then show "(?q - 1) * W < m"
    using eq r by linarith
  show "m \<le> ?q * W"
    using eq r by linarith
qed

lemma segment_windows_positive:
  assumes "0 < segment_duration"
  shows "segment_windows duration segment_duration =
           Inr (map (\<lambda>k. window_of duration segment_duration (int k * segment_duration))
                  [0..<nat ((py_int duration + segment_duration - 1) div segment_duration)])"
  using assms by (simp add: segment_windows_def py_range_def comp_def)

text \<open>
  The partition is right whenever the truncation of the duration loses nothing: for a
  positive duration and a positive window size such that the duration is a whole number
  of seconds or its integer part is not a multiple of the window size, the windows start
  at 0, each window but the last is \<open>segment_duration\<close> long and ends where the next one
  starts, and the last window ends at the duration and is at most \<open>segment_duration\<close>
  long.
\<close>

theorem windows_partition:
  assumes D: "0 < duration" and W: "0 < segment_duration"
    and tail: "segment_duration dvd py_int duration \<longrightarrow> duration = of_int (py_int duration)"
  shows "\<exists>windows. segment_windows duration segment_duration = Inr windows
           \<and> windows \<noteq> []
           \<and> fst (hd windows) = 0
           \<and> num_val (snd (last windows)) = duration
           \<and> (\<forall>i. Suc i < length windows \<longrightarrow>
                 num_val (snd (windows ! i)) = of_int (fst (windows ! Suc i))
                 \<and> window_len (windows ! i) = of_int segment_duration)
           \<and> 0 < window_len (last windows)
           \<and> window_len (last windows) \<le> of_int segment_duration"
proof -
  define m where "m = py_int duration"
  define n where "n = nat ((m + segment_duration - 1) div segment_duration)"
  define win where "win = (\<lambda>k. window_of duration segment_duration (int k * segment_duration))"
  define ws where "ws = map win [0..<n]"
  have m: "m = \<lfloor>duration\<rfloor>"
    using D by (simp add: m_def py_int_def)
  have m_le: "of_int m \<le> duration"
    unfolding m by linarith
  have m_pos: "1 \<le> m"
  proof (rule ccontr)
    assume "\<not> 1 \<le> m"
    moreover have "0 \<le> m" using D m by simp
    ultimately have "m = 0" by linarith
    then have "duration = 0" using tail by (simp add: m_def)
    then show False using D by simp
  qed
  have q_pos: "1 \<le> (m + segment_duration - 1) div segment_duration"
  proof (rule ccontr)
    assume "\<not> 1 \<le> (m + segment_duration - 1) div segment_duration"
    then have "(m + segment_duration - 1) div segment_duration \<le> 0"
      by linarith
    then have "(m + segment_duration - 1) div segment_duration * segment_duration \<le> 0"
      using W by (intro mult_nonpos_nonneg) simp_all
    then show False
      using ceil_div_bounds(2) [OF W, of m] m_pos by linarith
  qed
  have n_int: "int n = (m + segment_duration - 1) div segment_duration"
    using q_pos by (simp add: n_def)
  have n_pos: "0 < n"
    using q_pos n_int by linarith
  have below: "(int n - 1) * segment_duration < m"
    and above: "m \<le> int n * segment_duration"
    unfolding n_int using ceil_div_bounds [OF W] by simp_all
  have res: "segment_windows duration segment_duration = Inr ws"
    unfolding ws_def win_def n_def m_def using W by (rule segment_windows_positive)
  have len: "length ws = n"
    by (simp add: ws_def)
  have nth: "ws ! k = win k" if "k < n" for k
    using that by (simp add: ws_def)
  have ne: "ws \<noteq> []"
    using n_pos len by auto
  have first: "fst (hd ws) = 0"
    using nth [OF n_pos] ne by (simp add: hd_conv_nth win_def window_of_def)
  have pred: "int (n - 1) = int n - 1"
    using n_pos by simp
  have "last ws = win (n - 1)"
    using nth [of "n - 1"] n_pos ne len by (simp add: last_conv_nth)
  then have last_win: "last ws = ((int n - 1) * segment_duration, py_min (int n * segment_duration) duration)"
    unfolding win_def window_of_def pred by (simp add: algebra_simps)
  have start_last: "of_int ((int n - 1) * segment_duration) < duration"
  proof -
    have "(of_int ((int n - 1) * segment_duration) :: rat) < of_int m"
      using below by (simp only: of_int_less_iff)
    then show ?thesis using m_le by linarith
  qed
  have end_last: "num_val (snd (last ws)) = duration"
  proof (cases "duration < of_int (int n * segment_duration)")
    case True
    then show ?thesis
      unfolding last_win py_min_def by simp
  next
    case False
    then have "of_int (int n * segment_duration) \<le> duration"
      by simp
    then have "int n * segment_duration \<le> \<lfloor>duration\<rfloor>"
      by (simp only: le_floor_iff)
    then have eq: "int n * segment_duration = m"
      using above m by linarith
    then have "segment_duration dvd m"
      by (metis dvd_triv_right)
    then have "duration = of_int m"
      using tail by (simp add: m_def)
    then have "duration = of_int (int n * segment_duration)"
      unfolding eq .
    then show ?thesis
      using False unfolding last_win py_min_def by simp
  qed
  have inner: "num_val (snd (ws ! i)) = of_int (fst (ws ! Suc i))
               \<and> window_len (ws ! i) = of_int segment_duration" if "Suc i < length ws" for i
  proof -
    have i: "Suc i < n" using that len by simp
    then have "int (Suc i) \<le> int n - 1" by linarith
    then have "int (Suc i) * segment_duration \<le> (int n - 1) * segment_duration"
      using W by (intro mult_right_mono) simp_all
    then have "(of_int (int (Suc i) * segment_duration) :: rat) \<le> of_int ((int n - 1) * segment_duration)"
      by (simp only: of_int_le_iff)
    then have lt: "(of_int (int (Suc i) * segment_duration) :: rat) < duration"
      using start_last by linarith
    have "int (Suc i) * segment_duration = int i * segment_duration + segment_duration"
      by (simp add: algebra_simps)
    then have "(of_int (int i * segment_duration + segment_duration) :: rat) < duration"
      using lt by (simp only:)
    then have "\<not> duration < of_int (int i * segment_duration + segment_duration)"
      by linarith
    then have "win i = (int i * segment_duration, PyInt (int i * segment_duration + segment_duration))"
      by (simp add: win_def window_of_def py_min_def)
    moreover have "fst (win (Suc i)) = int i * segment_duration + segment_duration"
      by (simp add: win_def window_of_def algebra_simps)
    moreover have "ws ! i = win i" and "ws ! Suc i = win (Suc i)"
      using i by (simp_all add: nth)
    ultimately show ?thesis
      by (simp add: window_len_def)
  qed
  have len_last: "window_len (last ws) = duration - of_int ((int n - 1) * segment_duration)"
    unfolding window_len_def end_last by (simp add: last_win)
  have pos_last: "0 < window_len (last ws)"
    unfolding len_last using start_last by simp
  have "duration \<le> of_int (int n * segment_duration)"
  proof (cases "duration < of_int (int n * segment_duration)")
    case True
    then show ?thesis by simp
  next
    case False
    then have "num_val (snd (last ws)) = of_int (int n * segment_duration)"
      unfolding last_win py_min_def by simp
    then show ?thesis
      using end_last by simp
  qed
  then have le_last: "window_len (last ws) \<le> of_int segment_duration"
    unfolding len_last by (simp add: algebra_simps)
  show ?thesis
    using res ne first end_last inner pos_last le_last by blast
qed

theorem windows_partition_witness:
  "\<exists>windows. segment_windows (1401 / 2) 300 = Inr windows
      \<and> windows \<noteq> []
      \<and> fst (hd windows) = 0
      \<and> num_val (snd (last windows)) = 1401 / 2
      \<and> 0 < window_len (last windows)
      \<and> window_len (last windows) \<le> 300"
proof -
  have D: "(0::rat) < 1401 / 2" and W: "(0::int) < 300"
    by simp_all
  have "py_int (1401 / 2) = 700"
    by code_simp
  then have tail: "300 dvd py_int (1401 / 2) \<longrightarrow> (1401 / 2 :: rat) = of_int (py_int (1401 / 2))"
    by simp
  from windows_partition [OF D W tail] show ?thesis
    by auto
qed


section \<open>Properties of the cached translation\<close>

text \<open>
  Claim C10.  When \<open>translate_to_spanish\<close> calls the translation engine (the text is not
  empty and not in the cache) and the engine raises, or returns a text that is empty once
  \<open>str.strip()\<close> has stripped it, the function returns the input text and leaves the
  processor as it was: the cache and the cache file are unchanged.  In every call the
  cache either stays as it is or receives exactly one entry, the input text with the
  non-empty stripped translation that the function returns.
\<close>

theorem failed_translation_returns_input:
  "(phrase \<noteq> [] \<longrightarrow> map_of (translation_cache st) phrase = None \<longrightarrow>
      (translator phrase = Translate_raises \<or> (\<exists>r. translator phrase = Translated r \<and> strip r = [])) \<longrightarrow>
      translate_to_spanish strip translator st phrase = (phrase, st))
   \<and> (translation_cache (snd (translate_to_spanish strip translator st phrase)) = translation_cache st
      \<or> (\<exists>r. translator phrase = Translated r \<and> strip r \<noteq> []
             \<and> fst (translate_to_spanish strip translator st phrase) = strip r
             \<and> translation_cache (snd (translate_to_spanish strip translator st phrase))
                 = dict_set phrase (strip r) (translation_cache st)))"
proof (intro conjI impI)
  assume "phrase \<noteq> []" and "map_of (translation_cache st) phrase = None"
    and "translator phrase = Translate_raises \<or> (\<exists>r. translator phrase = Translated r \<and> strip r = [])"
  then show "translate_to_spanish strip translator st phrase = (phrase, st)"
    by (auto simp: translate_to_spanish_def)
next
  have saved: "translation_cache (save_translation_cache s) = translation_cache s" for s
    by (simp add: save_translation_cache_def split: option.splits)
  show "translation_cache (snd (translate_to_spanish strip translator st phrase)) = translation_cache st
      \<or> (\<exists>r. translator phrase = Translated r \<and> strip r \<noteq> []
             \<and> fst (translate_to_spanish strip translator st phrase) = strip r
             \<and> translation_cache (snd (translate_to_spanish strip translator st phrase))
                 = dict_set phrase (strip r) (translation_cache st))"
    by (auto simp: translate_to_spanish_def Let_def saved split: option.splits translation.splits)
qed

theorem failed_translation_returns_input_witness:
  "translate_to_spanish ascii_strip failing_translator sample_whisper ''net'' = (''net'', sample_whisper)
   \<and> translate_to_spanish ascii_strip blank_translator sample_whisper ''net'' = (''net'', sample_whisper)"
proof -
  note raising = failed_translation_returns_input [where phrase = "''net''"
      and st = sample_whisper and translator = failing_translator
      and strip = ascii_strip, THEN conjunct1, rule_format]
  note blanking = failed_translation_returns_input [where phrase = "''net''"
      and st = sample_whisper and translator = blank_translator
      and strip = ascii_strip, THEN conjunct1, rule_format]
  have ne: "''net'' \<noteq> []"
    by simp
  have miss: "map_of (translation_cache sample_whisper) ''net'' = None"
    by (simp add: sample_whisper_def)
  have raises: "failing_translator ''net'' = Translate_raises
      \<or> (\<exists>r. failing_translator ''net'' = Translated r \<and> ascii_strip r = [])"
    by (simp add: failing_translator_def)
  have "ascii_strip ''  '' = []"
    by (simp add: ascii_strip_def is_space_def)
  then have blank: "blank_translator ''net'' = Translate_raises
      \<or> (\<exists>r. blank_translator ''net'' = Translated r \<and> ascii_strip r = [])"
    by (simp add: blank_translator_def)
  show ?thesis
    using raising [OF ne miss raises] blanking [OF ne miss blank] by simp
qed


section \<open>Properties of the approved voice samples\<close>

text \<open>
  Claim C9.  \<open>load_voice_samples\<close> returns a list exactly when the work directory is
  set, the metadata file of the profile exists and reads as a list of samples, and every
  listed sample exists; the list returned is then the whole list of the file, never a part
  of it.  It returns \<open>None\<close> exactly when the work directory is set and either the
  metadata file is absent or it lists a sample that is missing.  In the other cases it
  raises: \<open>RuntimeError\<close> when the work directory is not set, and the error of
  \<open>json.load\<close> or of \<open>metadata["samples"]\<close> when the metadata file exists but is not
  JSON or has no samples.
\<close>

theorem load_voice_samples_all_or_nothing:
  "(load_voice_samples env voice_name = Inr (Some samples) \<longleftrightarrow>
      (\<exists>sd approved. samples_dir env = Some sd \<and> sd \<noteq> [] \<and> approved_dir env = Some approved
          \<and> path_exists env (metadata_path approved voice_name)
          \<and> read_metadata env (metadata_path approved voice_name) = Samples samples
          \<and> (\<forall>s \<in> set samples. path_exists env s)))
   \<and> (load_voice_samples env voice_name = Inr None \<longleftrightarrow>
      (\<exists>sd approved. samples_dir env = Some sd \<and> sd \<noteq> [] \<and> approved_dir env = Some approved
          \<and> (\<not> path_exists env (metadata_path approved voice_name)
              \<or> (\<exists>listed. read_metadata env (metadata_path approved voice_name) = Samples listed
                    \<and> \<not> (\<forall>s \<in> set listed. path_exists env s)))))
   \<and> (samples_dir env = None \<or> samples_dir env = Some [] \<longrightarrow>
        load_voice_samples env voice_name = Inl RuntimeError)
   \<and> (\<forall>sd approved. samples_dir env = Some sd \<and> sd \<noteq> [] \<and> approved_dir env = Some approved
          \<and> path_exists env (metadata_path approved voice_name) \<longrightarrow>
        (read_metadata env (metadata_path approved voice_name) = Not_json \<longrightarrow>
           load_voice_samples env voice_name = Inl ValueError)
        \<and> (read_metadata env (metadata_path approved voice_name) = No_samples \<longrightarrow>
           load_voice_samples env voice_name = Inl KeyError))"
proof (intro conjI)
  show "load_voice_samples env voice_name = Inr (Some samples) \<longleftrightarrow>
      (\<exists>sd approved. samples_dir env = Some sd \<and> sd \<noteq> [] \<and> approved_dir env = Some approved
          \<and> path_exists env (metadata_path approved voice_name)
          \<and> read_metadata env (metadata_path approved voice_name) = Samples samples
          \<and> (\<forall>s \<in> set samples. path_exists env s))"
    by (auto simp: load_voice_samples_def list_all_iff split: option.splits if_splits metadata.splits)
  show "load_voice_samples env voice_name = Inr None \<longleftrightarrow>
      (\<exists>sd approved. samples_dir env = Some sd \<and> sd \<noteq> [] \<and> approved_dir env = Some approved
          \<and> (\<not> path_exists env (metadata_path approved voice_name)
              \<or> (\<exists>listed. read_metadata env (metadata_path approved voice_name) = Samples listed
                    \<and> \<not> (\<forall>s \<in> set listed. path_exists env s))))"
    by (auto simp: load_voice_samples_def list_all_iff split: option.splits if_splits metadata.splits)
  show "samples_dir env = None \<or> samples_dir env = Some [] \<longrightarrow>
        load_voice_samples env voice_name = Inl RuntimeError"
    by (auto simp: load_voice_samples_def)
  show "\<forall>sd approved. samples_dir env = Some sd \<and> sd \<noteq> [] \<and> approved_dir env = Some approved
          \<and> path_exists env (metadata_path approved voice_name) \<longrightarrow>
        (read_metadata env (metadata_path approved voice_name) = Not_json \<longrightarrow>
           load_voice_samples env voice_name = Inl ValueError)
        \<and> (read_metadata env (metadata_path approved voice_name) = No_samples \<longrightarrow>
           load_voice_samples env voice_name = Inl KeyError)"
    by (auto simp: load_voice_samples_def)
qed

theorem load_voice_samples_all_or_nothing_witness:
  "load_voice_samples
     (profile_cloner [''work/voice_references/approved/default/reference_1.wav'']) ''default''
     = Inr (Some [''work/voice_references/approved/default/reference_1.wav''])
   \<and> load_voice_samples
       (profile_cloner [''work/voice_references/approved/default/reference_1.wav'',
                        ''work/voice_references/approved/default/reference_2.wav'']) ''default''
     = Inr None
   \<and> load_voice_samples
       (profile_cloner [''work/voice_references/approved/default/reference_1.wav'']) ''other''
     = Inr None"
proof -
  let ?r1 = "''work/voice_references/approved/default/reference_1.wav''"
  let ?r2 = "''work/voice_references/approved/default/reference_2.wav''"
  let ?approved = "''work/voice_references/approved''"
  have dirs: "samples_dir (profile_cloner l) = Some ''work/voice_references''"
    "approved_dir (profile_cloner l) = Some ?approved" for l
    by (simp_all add: profile_cloner_def)
  have mp: "metadata_path ?approved ''default'' = ''work/voice_references/approved/default/metadata.json''"
    by (simp add: metadata_path_def path_join_def)
  have there: "path_exists (profile_cloner l) (metadata_path ?approved ''default'')" for l
    unfolding mp by (simp add: profile_cloner_def)
  have listed: "read_metadata (profile_cloner l) (metadata_path ?approved ''default'') = Samples l" for l
    by (simp add: profile_cloner_def)
  have absent: "\<not> path_exists (profile_cloner l) (metadata_path ?approved ''other'')" for l
    by (simp add: profile_cloner_def metadata_path_def path_join_def)
  have r1: "path_exists (profile_cloner l) ?r1" and r2: "\<not> path_exists (profile_cloner l) ?r2" for l
    by (simp_all add: profile_cloner_def)
  have whole: "load_voice_samples (profile_cloner [?r1]) ''default'' = Inr (Some [?r1])"
    using load_voice_samples_all_or_nothing [of "profile_cloner [?r1]" "''default''" "[?r1]", THEN conjunct1]
      there [of "[?r1]"] listed [of "[?r1]"] r1 [of "[?r1]"]
    by (simp add: dirs)
  have partial: "load_voice_samples (profile_cloner [?r1, ?r2]) ''default'' = Inr None"
    using load_voice_samples_all_or_nothing [of "profile_cloner [?r1, ?r2]" "''default''" "[]",
        THEN conjunct2, THEN conjunct1]
      there [of "[?r1, ?r2]"] listed [of "[?r1, ?r2]"] r1 [of "[?r1, ?r2]"] r2 [of "[?r1, ?r2]"]
    by (simp add: dirs)
  have none: "load_voice_samples (profile_cloner [?r1]) ''other'' = Inr None"
    using load_voice_samples_all_or_nothing [of "profile_cloner [?r1]" "''other''" "[]",
        THEN conjunct2, THEN conjunct1]
      absent [of "[?r1]"]
    by (simp add: dirs)
  show ?thesis
    using whole partial none by simp
qed

text \<open>
  The profile of the sample cloner, loaded once the work directory is withdrawn and once
  from a metadata file that is not JSON: both calls raise instead of returning \<open>None\<close>.
\<close>

theorem load_voice_samples_raises:
  "load_voice_samples
     (profile_cloner [''work/voice_references/approved/default/reference_1.wav'']
        \<lparr>samples_dir := None, approved_dir := None\<rparr>) ''default''
     = Inl RuntimeError
   \<and> load_voice_samples
       (profile_cloner [''work/voice_references/approved/default/reference_1.wav'']
          \<lparr>read_metadata := (\<lambda>p. Not_json)\<rparr>) ''default''
     = Inl ValueError"
  by code_simp


section \<open>Properties of the progress ledger\<close>

lemma dict_set_fresh: "k \<notin> fst ` set d \<Longrightarrow> dict_set k v d = d @ [(k, v)]"
  unfolding dict_set_def by (induction d) auto

lemma int_float_error: "int_float pf s = Inl e \<Longrightarrow> e = ValueError \<or> e = OverflowError"
  unfolding int_float_def
  by (cases "pf s"; cases "the (pf s)") (auto split: option.splits)

lemma check_entry_error: "check_entry pf ex t entry = Inl e \<Longrightarrow> e = OverflowError"
  unfolding check_entry_def
  by (auto split: option.splits if_splits list.splits sum.splits dest: int_float_error)

lemma entry_ok_iff:
  "entry_ok pf ex t (k, data) \<longleftrightarrow>
     (\<exists>p. rec_output data = Some p \<and> p \<noteq> [] \<and> p \<in> ex)
     \<and> (\<exists>u a b s e. split_on CHR ''_'' k = [u, a, b]
            \<and> int_float pf a = Inr s \<and> int_float pf b = Inr e
            \<and> subtitle_path t ''ru'' s e \<in> ex \<and> subtitle_path t ''es'' s e \<in> ex)"
  unfolding entry_ok_def check_entry_def
  by (auto split: option.splits if_splits list.splits sum.splits)

lemma validate_entries_filter:
  assumes "\<forall>entry \<in> set xs. \<not> isl (check_entry pf ex t entry)"
    and "distinct (map fst xs)"
    and "fst ` set xs \<inter> fst ` set acc = {}"
  shows "validate_entries pf ex t xs acc = Inr (acc @ filter (entry_ok pf ex t) xs)"
  using assms
proof (induction xs arbitrary: acc)
  case Nil
  show ?case by simp
next
  case (Cons entry rest)
  from Cons.prems(1) obtain keep where keep: "check_entry pf ex t entry = Inr keep"
    by (cases "check_entry pf ex t entry") auto
  have ok: "entry_ok pf ex t entry = keep"
    by (simp add: entry_ok_def keep)
  have fresh: "fst entry \<notin> fst ` set acc"
    using Cons.prems(3) by auto
  let ?acc = "if keep then dict_set (fst entry) (snd entry) acc else acc"
  have acc': "?acc = (if keep then acc @ [entry] else acc)"
    using fresh by (simp add: dict_set_fresh)
  have "validate_entries pf ex t rest ?acc = Inr (?acc @ filter (entry_ok pf ex t) rest)"
  proof (rule Cons.IH)
    show "\<forall>entry \<in> set rest. \<not> isl (check_entry pf ex t entry)"
      using Cons.prems(1) by simp
    show "distinct (map fst rest)"
      using Cons.prems(2) by simp
    show "fst ` set rest \<inter> fst ` set ?acc = {}"
      using Cons.prems(2,3) unfolding acc' by auto
  qed
  then show ?case
    by (simp add: keep ok acc')
qed

lemma entry_ok_mono:
  assumes "entry_ok pf ex t entry" and "ex \<subseteq> ex'"
  shows "entry_ok pf ex' t entry"
proof -
  obtain k data where entry: "entry = (k, data)"
    by (cases entry)
  show ?thesis
    using assms unfolding entry entry_ok_iff by blast
qed

lemma entry_ok_not_raises: "entry_ok pf ex t entry \<Longrightarrow> \<not> isl (check_entry pf ex t entry)"
  by (simp add: entry_ok_def)

lemma validate_progress_result:
  assumes "distinct (map fst (progress st))"
    and "\<forall>entry \<in> set (progress st). \<not> isl (check_entry pf (existing d) (TEMP_DIR st) entry)"
  shows "validate_progress pf st d =
           Inr (True,
                st\<lparr>progress := filter (entry_ok pf (existing d) (TEMP_DIR st)) (progress st)\<rparr>,
                if filter (entry_ok pf (existing d) (TEMP_DIR st)) (progress st) = progress st then d
                else save_progress
                       (st\<lparr>progress := filter (entry_ok pf (existing d) (TEMP_DIR st)) (progress st)\<rparr>) d)"
proof (cases "progress st = []")
  case True
  then show ?thesis by (simp add: validate_progress_def)
next
  case False
  let ?ok = "entry_ok pf (existing d) (TEMP_DIR st)"
  have run: "validate_entries pf (existing d) (TEMP_DIR st) (progress st) [] = Inr (filter ?ok (progress st))"
    using validate_entries_filter [OF assms(2) assms(1), of "[]"] by simp
  show ?thesis
  proof (cases "filter ?ok (progress st) = progress st")
    case True
    then show ?thesis
      using False by (simp add: validate_progress_def run invalid_segments_def)
  next
    case diff: False
    have "length (filter ?ok (progress st)) \<noteq> length (progress st)"
      using diff by (metis filter_True length_filter_less linorder_neq_iff)
    moreover have "length (filter ?ok (progress st)) \<le> length (progress st)"
      by (rule length_filter_le)
    ultimately have "length (filter ?ok (progress st)) < length (progress st)"
      by linarith
    then have "0 < invalid_segments (progress st) (filter ?ok (progress st))"
      by (simp add: invalid_segments_def)
    then show ?thesis
      using False diff by (simp add: validate_progress_def run Let_def)
  qed
qed


lemma validate_progress_returns:
  assumes "validate_progress pf st d = Inr res"
  shows "\<forall>entry \<in> set (progress st). \<not> isl (check_entry pf (existing d) (TEMP_DIR st) entry)"
proof (rule ccontr)
  assume "\<not> ?thesis"
  then obtain entry where mem: "entry \<in> set (progress st)"
    and bad: "isl (check_entry pf (existing d) (TEMP_DIR st) entry)"
    by blast
  have raises: "entry \<in> set xs \<Longrightarrow> isl (check_entry pf ex t entry)
      \<Longrightarrow> isl (validate_entries pf ex t xs acc)" for xs ex t acc
    by (induction xs arbitrary: acc) (auto split: sum.splits)
  have "isl (validate_entries pf (existing d) (TEMP_DIR st) (progress st) [])"
    using mem bad by (rule raises)
  moreover have "progress st \<noteq> []"
    using mem by auto
  ultimately have "isl (validate_progress pf st d)"
    by (auto simp: validate_progress_def split: sum.splits)
  then show False
    using assms by simp
qed

text \<open>
  The run of \<open>validate_progress\<close> on the sample ledger: the first entry is kept, the two
  others are dropped, and the ledger file is rewritten.
\<close>

lemma sample_validation:
  "validate_progress parse_decimal sample_dubber sample_disk
     = Inr (True,
            sample_dubber\<lparr>progress := [(''segment_0_300'',
               \<lparr>rec_output = Some ''work/video/temp_output_0.mp4'', rec_completed = True\<rparr>)]\<rparr>,
            sample_disk\<lparr>progress_json := Some [(''segment_0_300'',
               \<lparr>rec_output = Some ''work/video/temp_output_0.mp4'', rec_completed = True\<rparr>)]\<rparr>)"
  by code_simp






text \<open>
  Claim C8.  Whenever a run of \<open>validate_progress\<close> on a ledger with distinct keys
  returns, a second run on the dubber and the disk it left returns as well, changes
  neither, and drops no entry.
\<close>

theorem validate_progress_idempotent:
  assumes "distinct (map fst (progress st))"
    and "validate_progress pf st d = Inr (r, st', d')"
  shows "validate_progress pf st' d' = Inr (True, st', d') \<and> dropped pf st' d' = Some 0"
proof -
  let ?ok = "entry_ok pf (existing d) (TEMP_DIR st)"
  let ?kept = "filter ?ok (progress st)"
  have noraise: "\<forall>entry \<in> set (progress st). \<not> isl (check_entry pf (existing d) (TEMP_DIR st) entry)"
    using assms(2) by (rule validate_progress_returns)
  have first: "validate_progress pf st d =
      Inr (True, st\<lparr>progress := ?kept\<rparr>,
           if ?kept = progress st then d else save_progress (st\<lparr>progress := ?kept\<rparr>) d)"
    using assms(1) noraise by (rule validate_progress_result)
  have st': "st' = st\<lparr>progress := ?kept\<rparr>"
    and d': "d' = (if ?kept = progress st then d else save_progress (st\<lparr>progress := ?kept\<rparr>) d)"
    using first assms(2) by simp_all
  have more: "existing d \<subseteq> existing d'"
    unfolding d' by (auto simp: save_progress_def)
  have dir: "TEMP_DIR st' = TEMP_DIR st" and kept: "progress st' = ?kept"
    unfolding st' by simp_all
  have all_ok: "\<forall>entry \<in> set (progress st'). entry_ok pf (existing d') (TEMP_DIR st') entry"
    unfolding kept dir using entry_ok_mono [OF _ more] by auto
  have same: "filter (entry_ok pf (existing d') (TEMP_DIR st')) (progress st') = progress st'"
    using all_ok by (simp add: filter_id_conv)
  have "validate_progress pf st' d' =
      Inr (True, st'\<lparr>progress := filter (entry_ok pf (existing d') (TEMP_DIR st')) (progress st')\<rparr>,
           if filter (entry_ok pf (existing d') (TEMP_DIR st')) (progress st') = progress st' then d'
           else save_progress
                  (st'\<lparr>progress := filter (entry_ok pf (existing d') (TEMP_DIR st')) (progress st')\<rparr>) d')"
  proof (rule validate_progress_result)
    show "distinct (map fst (progress st'))"
      unfolding kept using assms(1) by (rule distinct_map_filter)
    show "\<forall>entry \<in> set (progress st'). \<not> isl (check_entry pf (existing d') (TEMP_DIR st') entry)"
      using all_ok entry_ok_not_raises by blast
  qed
  then have again: "validate_progress pf st' d' = Inr (True, st', d')"
    unfolding same by simp
  then show ?thesis
    by (simp add: dropped_def)
qed

theorem validate_progress_idempotent_witness:
  "validate_progress parse_decimal
     (sample_dubber\<lparr>progress := [(''segment_0_300'',
        \<lparr>rec_output = Some ''work/video/temp_output_0.mp4'', rec_completed = True\<rparr>)]\<rparr>)
     (sample_disk\<lparr>progress_json := Some [(''segment_0_300'',
        \<lparr>rec_output = Some ''work/video/temp_output_0.mp4'', rec_completed = True\<rparr>)]\<rparr>)
     = Inr (True,
            sample_dubber\<lparr>progress := [(''segment_0_300'',
               \<lparr>rec_output = Some ''work/video/temp_output_0.mp4'', rec_completed = True\<rparr>)]\<rparr>,
            sample_disk\<lparr>progress_json := Some [(''segment_0_300'',
               \<lparr>rec_output = Some ''work/video/temp_output_0.mp4'', rec_completed = True\<rparr>)]\<rparr>)
   \<and> dropped parse_decimal
       (sample_dubber\<lparr>progress := [(''segment_0_300'',
          \<lparr>rec_output = Some ''work/video/temp_output_0.mp4'', rec_completed = True\<rparr>)]\<rparr>)
       (sample_disk\<lparr>progress_json := Some [(''segment_0_300'',
          \<lparr>rec_output = Some ''work/video/temp_output_0.mp4'', rec_completed = True\<rparr>)]\<rparr>)
     = Some 0"
proof -
  have keys: "distinct (map fst (progress sample_dubber))"
    by (simp add: sample_dubber_def sample_ledger_def)
  note first = sample_validation
  show ?thesis
    using validate_progress_idempotent [OF keys first] .
qed


section \<open>Properties of the orchestrator\<close>

lemma loop_hit:
  assumes "map_of (progress st) (window_key env w) = Some data" and "rec_output data = Some out"
  shows "segment_loop env (w # ws) (acc, st, d) = segment_loop env ws (acc @ [out], st, d)"
  using assms by (simp add: window_key_def)

lemma loop_hit_bad:
  assumes "map_of (progress st) (window_key env w) = Some data" and "rec_output data = None"
  shows "segment_loop env (w # ws) (acc, st, d) = (Some KeyError, (acc, st, d))"
  using assms by (simp add: window_key_def)

lemma loop_skip:
  assumes "\<not> has_output env st w"
  shows "segment_loop env (w # ws) (acc, st, d) = segment_loop env ws (acc, st, d)"
  using assms
  by (auto simp: has_output_def dict_has_def window_key_def split: option.splits)

lemma loop_fresh:
  assumes "map_of (progress st) (window_key env w) = None"
    and "process_segment env st (fst w) (snd w) = Some out" and "out \<noteq> []"
  shows "segment_loop env (w # ws) (acc, st, d) =
           segment_loop env ws
             (acc @ [out],
              st\<lparr>progress := dict_set (window_key env w) \<lparr>rec_output = Some out, rec_completed = True\<rparr> (progress st)\<rparr>,
              save_progress
                (st\<lparr>progress := dict_set (window_key env w) \<lparr>rec_output = Some out, rec_completed = True\<rparr> (progress st)\<rparr>) d)"
  using assms by (simp add: window_key_def Let_def)

declare segment_loop.simps(2) [simp del]

lemma window_cases:
  obtains (hit) data out where "map_of (progress st) (window_key env w) = Some data" "rec_output data = Some out"
  | (bad) data where "map_of (progress st) (window_key env w) = Some data" "rec_output data = None"
  | (skip) "\<not> has_output env st w"
  | (fresh) out where "map_of (progress st) (window_key env w) = None"
      "process_segment env st (fst w) (snd w) = Some out" "out \<noteq> []"
proof (cases "map_of (progress st) (window_key env w)")
  case None
  show ?thesis
  proof (cases "process_segment env st (fst w) (snd w)")
    case n: None
    then have "\<not> has_output env st w"
      using None by (simp add: has_output_def dict_has_def)
    then show ?thesis by (rule skip)
  next
    case (Some out)
    show ?thesis
    proof (cases "out = []")
      case True
      then have "\<not> has_output env st w"
        using None Some by (simp add: has_output_def dict_has_def)
      then show ?thesis by (rule skip)
    next
      case False
      with None Some show ?thesis by (rule fresh)
    qed
  qed
next
  case (Some data)
  then show ?thesis
    by (cases "rec_output data") (auto intro: hit bad)
qed

lemma has_output_hit: "map_of (progress st) (window_key env w) = Some data \<Longrightarrow> has_output env st w"
  by (simp add: has_output_def dict_has_def)

lemma has_output_fresh:
  "process_segment env st (fst w) (snd w) = Some out \<Longrightarrow> out \<noteq> [] \<Longrightarrow> has_output env st w"
  by (simp add: has_output_def)

lemma segment_loop_extends:
  "\<exists>more. fst (snd (segment_loop env ws (acc, st, d))) = acc @ more"
proof (induction ws arbitrary: acc st d)
  case Nil
  show ?case by simp
next
  case (Cons w ws)
  show ?case
  proof (cases rule: window_cases [of st env w])
    case (hit data out)
    then show ?thesis
      using Cons.IH [of "acc @ [out]" st d] by (auto simp: loop_hit)
  next
    case (bad data)
    then show ?thesis by (simp add: loop_hit_bad)
  next
    case skip
    then show ?thesis
      using Cons.IH [of acc st d] by (simp add: loop_skip)
  next
    case (fresh out)
    then show ?thesis
      using Cons.IH [of "acc @ [out]"] by (auto simp: loop_fresh)
  qed
qed

lemma segment_loop_empty_iff:
  assumes "fst (segment_loop env ws (acc, st, d)) = None"
  shows "fst (snd (segment_loop env ws (acc, st, d))) = acc \<longleftrightarrow> (\<forall>w \<in> set ws. \<not> has_output env st w)"
  using assms
proof (induction ws arbitrary: acc st d)
  case Nil
  show ?case by simp
next
  case (Cons w ws)
  show ?case
  proof (cases rule: window_cases [of st env w])
    case (hit data out)
    obtain more where "fst (snd (segment_loop env ws (acc @ [out], st, d))) = (acc @ [out]) @ more"
      using segment_loop_extends by blast
    then have "fst (snd (segment_loop env (w # ws) (acc, st, d))) \<noteq> acc"
      using hit by (simp add: loop_hit)
    moreover have "has_output env st w"
      using hit(1) by (rule has_output_hit)
    ultimately show ?thesis by auto
  next
    case (bad data)
    then show ?thesis
      using Cons.prems by (simp add: loop_hit_bad)
  next
    case skip
    then show ?thesis
      using Cons.IH [of acc st d] Cons.prems by (simp add: loop_skip)
  next
    case (fresh out)
    let ?st = "st\<lparr>progress := dict_set (window_key env w) \<lparr>rec_output = Some out, rec_completed = True\<rparr> (progress st)\<rparr>"
    obtain more where "fst (snd (segment_loop env ws (acc @ [out], ?st, save_progress ?st d))) = (acc @ [out]) @ more"
      using segment_loop_extends by blast
    then have "fst (snd (segment_loop env (w # ws) (acc, st, d))) \<noteq> acc"
      using fresh by (simp add: loop_fresh)
    moreover have "has_output env st w"
      using fresh(2,3) by (rule has_output_fresh)
    ultimately show ?thesis by auto
  qed
qed

lemma dict_set_keys: "fst ` set (dict_set k v al) = insert k (fst ` set al)"
  unfolding dict_set_def by (induction al) auto

lemma dict_set_entries: "set (dict_set k v al) \<subseteq> insert (k, v) (set al)"
  unfolding dict_set_def by (induction al) auto

lemma map_of_entry: "map_of al k = Some v \<Longrightarrow> (k, v) \<in> set al"
  by (rule map_of_SomeD)

lemma segment_loop_keys:
  "fst ` set (progress (fst (snd (snd (segment_loop env ws (acc, st, d))))))
     \<subseteq> fst ` set (progress st) \<union> window_key env ` set ws"
proof (induction ws arbitrary: acc st d)
  case Nil
  show ?case by simp
next
  case (Cons w ws)
  show ?case
  proof (cases rule: window_cases [of st env w])
    case (hit data out)
    then show ?thesis
      using Cons.IH [of "acc @ [out]" st d] by (auto simp: loop_hit)
  next
    case (bad data)
    then show ?thesis by (auto simp: loop_hit_bad)
  next
    case skip
    then show ?thesis
      using Cons.IH [of acc st d] by (auto simp: loop_skip)
  next
    case (fresh out)
    let ?st = "st\<lparr>progress := dict_set (window_key env w) \<lparr>rec_output = Some out, rec_completed = True\<rparr> (progress st)\<rparr>"
    have "fst ` set (progress (fst (snd (snd (segment_loop env ws (acc @ [out], ?st, save_progress ?st d))))))
            \<subseteq> fst ` set (progress ?st) \<union> window_key env ` set ws"
      by (rule Cons.IH)
    moreover have "fst ` set (progress ?st) = insert (window_key env w) (fst ` set (progress st))"
      by (simp add: dict_set_keys)
    ultimately show ?thesis
      unfolding loop_fresh [OF fresh] by auto
  qed
qed

lemma segment_loop_no_key_error:
  assumes "\<forall>entry \<in> set (progress st). rec_output (snd entry) \<noteq> None"
  shows "fst (segment_loop env ws (acc, st, d)) = None"
  using assms
proof (induction ws arbitrary: acc st d)
  case Nil
  show ?case by simp
next
  case (Cons w ws)
  show ?case
  proof (cases rule: window_cases [of st env w])
    case (hit data out)
    then show ?thesis
      using Cons.IH [of st "acc @ [out]" d] Cons.prems by (simp add: loop_hit)
  next
    case (bad data)
    then have "(window_key env w, data) \<in> set (progress st)"
      by (intro map_of_SomeD) simp
    then show ?thesis
      using Cons.prems bad(2) by auto
  next
    case skip
    then show ?thesis
      using Cons.IH [of st acc d] Cons.prems by (simp add: loop_skip)
  next
    case (fresh out)
    let ?st = "st\<lparr>progress := dict_set (window_key env w) \<lparr>rec_output = Some out, rec_completed = True\<rparr> (progress st)\<rparr>"
    have "\<forall>entry \<in> set (progress ?st). rec_output (snd entry) \<noteq> None"
      using Cons.prems dict_set_entries [of "window_key env w" "\<lparr>rec_output = Some out, rec_completed = True\<rparr>" "progress st"]
      by auto
    then have "fst (segment_loop env ws (acc @ [out], ?st, save_progress ?st d)) = None"
      by (rule Cons.IH)
    then show ?thesis
      unfolding loop_fresh [OF fresh] .
  qed
qed

lemma entry_ok_output: "entry_ok pf ex t entry \<Longrightarrow> rec_output (snd entry) \<noteq> None"
  unfolding entry_ok_def check_entry_def by (auto split: option.splits)

lemma validate_entries_keys:
  "validate_entries pf ex t xs acc = Inr v \<Longrightarrow> fst ` set v \<subseteq> fst ` set acc \<union> fst ` set xs"
proof (induction xs arbitrary: acc)
  case Nil
  then show ?case by auto
next
  case (Cons entry rest)
  from Cons.prems obtain keep where keep: "check_entry pf ex t entry = Inr keep"
    by (cases "check_entry pf ex t entry") auto
  let ?acc = "if keep then dict_set (fst entry) (snd entry) acc else acc"
  have "validate_entries pf ex t rest ?acc = Inr v"
    using Cons.prems keep by simp
  then have "fst ` set v \<subseteq> fst ` set ?acc \<union> fst ` set rest"
    by (rule Cons.IH)
  moreover have "fst ` set ?acc \<subseteq> insert (fst entry) (fst ` set acc)"
    by (auto simp: dict_set_keys)
  ultimately show ?case by auto
qed

lemma validate_progress_keys:
  assumes "validate_progress pf st d = Inr res"
  shows "fst ` set (progress (fst (snd res))) \<subseteq> fst ` set (progress st)"
proof (cases "progress st = []")
  case True
  then show ?thesis using assms by (auto simp: validate_progress_def)
next
  case False
  then obtain v where v: "validate_entries pf (existing d) (TEMP_DIR st) (progress st) [] = Inr v"
    using assms by (auto simp: validate_progress_def split: sum.splits)
  have sub: "fst ` set v \<subseteq> fst ` set (progress st)"
    using validate_entries_keys [OF v] by simp
  have "progress (fst (snd res)) = v \<or> progress (fst (snd res)) = progress st"
    using assms False v by (auto simp: validate_progress_def Let_def split: if_splits)
  then show ?thesis
    using sub by auto
qed

lemma py_range_members:
  assumes "py_range 0 hi step = Inr starts" and "s \<in> set starts"
  shows "\<exists>k::nat. s = int k * step \<and> (0 < step \<longrightarrow> 0 \<le> s \<and> s < hi)"
proof (cases "0 < step")
  case True
  from assms True obtain k where k: "k < nat ((hi + step - 1) div step)" and s: "s = int k * step"
    by (auto simp: py_range_def)
  have "int k + 1 \<le> (hi + step - 1) div step"
    using k by linarith
  then have "(int k + 1) * step \<le> (hi + step - 1) div step * step"
    using True by (intro mult_right_mono) simp_all
  also have "\<dots> \<le> hi + step - 1"
    using True by (metis div_mult_mod_eq add_increasing2 order_refl pos_mod_sign)
  finally have "int k * step < hi"
    by (simp add: algebra_simps)
  moreover have "0 \<le> int k * step"
    using True by simp
  ultimately show ?thesis
    using s True by blast
next
  case False
  from assms False obtain k :: nat where "s = int k * step"
    by (auto simp: py_range_def split: if_splits)
  then show ?thesis using False by blast
qed

lemma segment_windows_members:
  assumes "segment_windows duration segment_duration = Inr windows" and "w \<in> set windows"
  shows "\<exists>k::nat. fst w = int k * segment_duration
           \<and> snd w = py_min (int k * segment_duration + segment_duration) duration
           \<and> (0 < segment_duration \<longrightarrow> 0 \<le> fst w \<and> fst w < py_int duration)"
proof -
  from assms obtain starts where starts: "py_range 0 (py_int duration) segment_duration = Inr starts"
    and ws: "windows = map (window_of duration segment_duration) starts"
    by (auto simp: segment_windows_def split: sum.splits)
  from assms(2) ws obtain s where s: "s \<in> set starts" and w: "w = window_of duration segment_duration s"
    by auto
  from py_range_members [OF starts s] obtain k :: nat where
    "s = int k * segment_duration" "0 < segment_duration \<longrightarrow> 0 \<le> s \<and> s < py_int duration"
    by blast
  then show ?thesis
    unfolding w window_of_def by auto
qed

lemma segment_windows_step: "segment_windows duration segment_duration = Inr windows \<Longrightarrow> segment_duration \<noteq> 0"
  by (auto simp: segment_windows_def py_range_def split: sum.splits if_splits)

lemma validated_entries_have_output:
  assumes "distinct (map fst (progress st))"
    and "validate_progress pf st d = Inr (b, st1, d1)"
  shows "\<forall>entry \<in> set (progress st1). rec_output (snd entry) \<noteq> None"
proof -
  have quiet: "\<forall>entry \<in> set (progress st). \<not> isl (check_entry pf (existing d) (TEMP_DIR st) entry)"
    using assms(2) by (rule validate_progress_returns)
  have "progress st1 = filter (entry_ok pf (existing d) (TEMP_DIR st)) (progress st)"
    using validate_progress_result [OF assms(1) quiet] assms(2) by simp
  then show ?thesis
    using entry_ok_output by auto
qed

lemma dub_video_after_loop:
  assumes "validate_progress (parse_float env) st d = Inr (b, st1, d1)"
    and "voice_reference env = Reference_ready (reference # others)"
    and "segment_windows (video_duration env) segment_duration = Inr windows"
    and "segment_loop env windows ([], st1\<lparr>reference_audio := Some reference\<rparr>, d1) = (None, (ds, st3, d3))"
  shows "dub_video env st d output_video_path segment_duration =
           \<lparr>run_error = fst (concatenate env ds output_video_path), run_cancelled = False,
            run_concat = snd (concatenate env ds output_video_path), run_dubber = st3, run_disk = d3\<rparr>"
proof -
  have "segment_duration \<noteq> 0"
    using assms(3) by (rule segment_windows_step)
  then have "total_segments (video_duration env) segment_duration
               = Inr \<lceil>video_duration env / of_int segment_duration\<rceil>"
    by (simp add: total_segments_def)
  then show ?thesis
    using assms by (simp add: dub_video_def Let_def)
qed

lemma dub_video_keys:
  "fst ` set (progress (run_dubber (dub_video env st d output_video_path segment_duration)))
     \<subseteq> fst ` set (progress st)
       \<union> (case segment_windows (video_duration env) segment_duration of
            Inl e \<Rightarrow> {}
          | Inr windows \<Rightarrow> window_key env ` set windows)"
proof (cases "validate_progress (parse_float env) st d")
  case (Inl e)
  then show ?thesis by (simp add: dub_video_def stopped_def)
next
  case (Inr v)
  let ?st1 = "fst (snd v)" and ?d1 = "snd (snd v)"
  have k1: "fst ` set (progress ?st1) \<subseteq> fst ` set (progress st)"
    using Inr by (rule validate_progress_keys)
  show ?thesis
  proof (cases "voice_reference env")
    case (Reference_raises e)
    then show ?thesis using Inr k1 by (auto simp: dub_video_def stopped_def Let_def)
  next
    case Reference_cancelled
    then show ?thesis using Inr k1 by (auto simp: dub_video_def Let_def)
  next
    case (Reference_ready samples)
    show ?thesis
    proof (cases samples)
      case Nil
      then show ?thesis
        using Inr k1 Reference_ready by (auto simp: dub_video_def stopped_def Let_def)
    next
      case (Cons reference others)
      let ?st2 = "?st1\<lparr>reference_audio := Some reference\<rparr>"
      show ?thesis
      proof (cases "total_segments (video_duration env) segment_duration")
        case e: (Inl e)
        then show ?thesis
          using Inr k1 Reference_ready Cons by (auto simp: dub_video_def stopped_def Let_def)
      next
        case t: (Inr shown)
        show ?thesis
        proof (cases "segment_windows (video_duration env) segment_duration")
          case e: (Inl e)
          then show ?thesis
            using Inr k1 Reference_ready Cons t by (auto simp: dub_video_def stopped_def Let_def)
        next
          case w: (Inr windows)
          obtain err ds st3 d3 where loop: "segment_loop env windows ([], ?st2, ?d1) = (err, (ds, st3, d3))"
            by (metis prod.exhaust)
          have "fst ` set (progress st3) \<subseteq> fst ` set (progress ?st2) \<union> window_key env ` set windows"
            using segment_loop_keys [of env windows "[]" ?st2 ?d1] loop by simp
          then have k3: "fst ` set (progress st3) \<subseteq> fst ` set (progress st) \<union> window_key env ` set windows"
            using k1 by auto
          have "run_dubber (dub_video env st d output_video_path segment_duration) = st3"
            using Inr Reference_ready Cons t w loop
            by (cases err) (simp_all add: dub_video_def stopped_def Let_def)
          then show ?thesis
            using k3 w by simp
        qed
      qed
    qed
  qed
qed

lemma process_segment_frame:
  "process_segment env (st\<lparr>progress := p\<rparr>) start_time end_time = process_segment env st start_time end_time"
  by (simp add: process_segment_def Let_def split: option.splits)

lemma digit_char_not_sep: "d < 10 \<Longrightarrow> digit_char d \<noteq> CHR ''_''"
proof -
  assume "d < 10"
  then have "d \<in> {0, 1, 2, 3, 4, 5, 6, 7, 8, 9}"
    by auto
  then show ?thesis
    unfolding digit_char_def
    by (auto simp: nth_Cons')
qed

lemma digit_val_digit_char: "d < 10 \<Longrightarrow> digit_val (digit_char d) = Some d"
proof -
  assume "d < 10"
  then have "d \<in> {0, 1, 2, 3, 4, 5, 6, 7, 8, 9}"
    by auto
  then show ?thesis
    unfolding digit_char_def digit_val_def
    by (auto simp: nth_Cons')
qed

lemma read_digits_append:
  "read_digits (xs @ ys) acc = (case read_digits xs acc of None \<Rightarrow> None | Some a \<Rightarrow> read_digits ys a)"
  by (induction xs arbitrary: acc) (auto split: option.splits)

lemma read_digits_str_nat: "read_digits (str_nat n) 0 = Some n"
proof (induction n rule: str_nat.induct)
  case (1 n)
  show ?case
  proof (cases "n < 10")
    case True
    then show ?thesis
      by (subst str_nat.simps) (simp add: digit_val_digit_char)
  next
    case False
    then have "read_digits (str_nat (n div 10)) 0 = Some (n div 10)"
      by (rule "1.IH")
    then show ?thesis
      using False
      by (subst str_nat.simps) (simp add: read_digits_append digit_val_digit_char)
  qed
qed

lemma str_nat_inj: "str_nat m = str_nat n \<Longrightarrow> m = n"
proof -
  assume "str_nat m = str_nat n"
  then have "read_digits (str_nat m) 0 = read_digits (str_nat n) 0"
    by simp
  then show "m = n"
    by (simp add: read_digits_str_nat)
qed

lemma str_nat_no_sep: "CHR ''_'' \<notin> set (str_nat n)"
proof (induction n rule: str_nat.induct)
  case (1 n)
  show ?case
  proof (cases "n < 10")
    case True
    then show ?thesis
      using digit_char_not_sep [of n] by (subst str_nat.simps) auto
  next
    case False
    then have "CHR ''_'' \<notin> set (str_nat (n div 10))"
      by (rule "1.IH")
    moreover have "digit_char (n mod 10) \<noteq> CHR ''_''"
      by (rule digit_char_not_sep) simp
    ultimately show ?thesis
      using False by (subst str_nat.simps) auto
  qed
qed

lemma str_nat_first_digit: "str_nat n \<noteq> [] \<and> hd (str_nat n) \<noteq> CHR ''-''"
proof (induction n rule: str_nat.induct)
  case (1 n)
  have dash: "digit_char d \<noteq> CHR ''-''" if "d < 10" for d
  proof -
    from that have "d \<in> {0, 1, 2, 3, 4, 5, 6, 7, 8, 9}" by auto
    then show ?thesis unfolding digit_char_def by (auto simp: nth_Cons')
  qed
  show ?case
  proof (cases "n < 10")
    case True
    then show ?thesis
      using dash [of n] by (subst (1 2) str_nat.simps) simp
  next
    case False
    then have "str_nat (n div 10) \<noteq> [] \<and> hd (str_nat (n div 10)) \<noteq> CHR ''-''"
      by (rule "1.IH")
    then show ?thesis
      using False by (subst (1 2) str_nat.simps) (simp add: hd_append)
  qed
qed

lemma str_int_inj: "str_int i = str_int j \<Longrightarrow> i = j"
proof -
  assume eq: "str_int i = str_int j"
  show ?thesis
  proof (cases "i < 0"; cases "j < 0")
    assume "i < 0" "j < 0"
    then show ?thesis
      using eq str_nat_inj [of "nat (- i)" "nat (- j)"] by (simp add: str_int_def)
  next
    assume "i < 0" "\<not> j < 0"
    then have "str_nat (nat j) = CHR ''-'' # str_nat (nat (- i))"
      using eq by (simp add: str_int_def)
    then have "hd (str_nat (nat j)) = CHR ''-''"
      by simp
    then show ?thesis
      using str_nat_first_digit [of "nat j"] by simp
  next
    assume "\<not> i < 0" "j < 0"
    then have "str_nat (nat i) = CHR ''-'' # str_nat (nat (- j))"
      using eq by (simp add: str_int_def)
    then have "hd (str_nat (nat i)) = CHR ''-''"
      by simp
    then show ?thesis
      using str_nat_first_digit [of "nat i"] by simp
  next
    assume "\<not> i < 0" "\<not> j < 0"
    then show ?thesis
      using eq str_nat_inj [of "nat i" "nat j"] by (simp add: str_int_def)
  qed
qed

lemma str_int_no_sep: "CHR ''_'' \<notin> set (str_int i)"
  using str_nat_no_sep by (simp add: str_int_def)

lemma prefix_before_sep:
  assumes "c \<notin> set xs" and "c \<notin> set ys" and "xs @ c # r = ys @ c # r'"
  shows "xs = ys"
proof -
  have "takeWhile (\<lambda>x. x \<noteq> c) (xs @ c # r) = xs"
    using assms(1) by (induction xs) auto
  moreover have "takeWhile (\<lambda>x. x \<noteq> c) (ys @ c # r') = ys"
    using assms(2) by (induction ys) auto
  ultimately show ?thesis
    using assms(3) by simp
qed

lemma segment_key_start:
  assumes "segment_key rf s e = segment_key rf s' e'"
  shows "s = s'"
proof -
  have "str_int s @ CHR ''_'' # str_num rf e = str_int s' @ CHR ''_'' # str_num rf e'"
    using assms by (simp add: segment_key_def)
  then have "str_int s = str_int s'"
    by (rule prefix_before_sep [OF str_int_no_sep str_int_no_sep])
  then show ?thesis
    by (rule str_int_inj)
qed

lemma py_range_distinct:
  assumes "py_range lo hi step = Inr starts"
  shows "distinct starts"
proof -
  have step: "step \<noteq> 0"
    using assms by (auto simp: py_range_def split: if_splits)
  then have "inj_on (\<lambda>k. lo + int k * step) A" for A
    by (auto simp: inj_on_def)
  moreover obtain n where "starts = map (\<lambda>k. lo + int k * step) [0..<n]"
    using assms step by (auto simp: py_range_def split: if_splits)
  ultimately show ?thesis
    by (simp add: distinct_map)
qed

lemma segment_windows_distinct_keys:
  assumes "segment_windows duration segment_duration = Inr windows"
  shows "distinct (map (window_key env) windows)"
proof -
  from assms obtain starts where starts: "py_range 0 (py_int duration) segment_duration = Inr starts"
    and ws: "windows = map (window_of duration segment_duration) starts"
    by (auto simp: segment_windows_def split: sum.splits)
  have "inj_on (\<lambda>s. window_key env (window_of duration segment_duration s)) (set starts)"
    by (auto simp: inj_on_def window_key_def window_of_def dest: segment_key_start)
  then show ?thesis
    unfolding ws using py_range_distinct [OF starts] by (simp add: distinct_map comp_def)
qed

lemma map_of_dict_set_other: "k' \<noteq> k \<Longrightarrow> map_of (dict_set k v al) k' = map_of al k'"
  by (simp add: dict_set_def update_conv')

lemma window_output_frame:
  assumes "window_key env w' \<noteq> k"
  shows "window_output env (st\<lparr>progress := dict_set k v (progress st)\<rparr>) w' = window_output env st w'"
  using assms
  by (simp add: window_output_def map_of_dict_set_other process_segment_frame cong: option.case_cong)

lemma outputs_cong:
  assumes "\<forall>w \<in> set ws. f w = g w"
  shows "List.map_filter f ws = List.map_filter g ws"
  using assms by (induction ws) (simp_all add: List.map_filter_simps split: option.splits)

lemma segment_loop_outputs:
  assumes "distinct (map (window_key env) ws)"
    and "fst (segment_loop env ws (acc, st, d)) = None"
  shows "fst (snd (segment_loop env ws (acc, st, d))) = acc @ List.map_filter (window_output env st) ws"
  using assms
proof (induction ws arbitrary: acc st d)
  case Nil
  show ?case by (simp add: List.map_filter_simps)
next
  case (Cons w ws)
  have rest: "distinct (map (window_key env) ws)"
    using Cons.prems(1) by simp
  have "window_key env w \<notin> window_key env ` set ws"
    using Cons.prems(1) by simp
  then have others: "\<forall>w' \<in> set ws. window_key env w' \<noteq> window_key env w"
    by (metis imageI)
  show ?case
  proof (cases rule: window_cases [of st env w])
    case (hit data out)
    have out: "window_output env st w = Some out"
      using hit by (simp add: window_output_def)
    have "fst (snd (segment_loop env ws (acc @ [out], st, d)))
            = (acc @ [out]) @ List.map_filter (window_output env st) ws"
      using rest Cons.prems(2) unfolding loop_hit [OF hit] by (rule Cons.IH)
    then show ?thesis
      unfolding loop_hit [OF hit] by (simp add: List.map_filter_simps out)
  next
    case (bad data)
    then show ?thesis
      using Cons.prems(2) by (simp add: loop_hit_bad)
  next
    case skip
    have out: "window_output env st w = None"
      using skip by (auto simp: window_output_def has_output_def dict_has_def split: option.splits)
    have "fst (snd (segment_loop env ws (acc, st, d))) = acc @ List.map_filter (window_output env st) ws"
      using rest Cons.prems(2) unfolding loop_skip [OF skip] by (rule Cons.IH)
    then show ?thesis
      unfolding loop_skip [OF skip] by (simp add: List.map_filter_simps out)
  next
    case (fresh out)
    let ?st = "st\<lparr>progress := dict_set (window_key env w) \<lparr>rec_output = Some out, rec_completed = True\<rparr> (progress st)\<rparr>"
    have out: "window_output env st w = Some out"
      using fresh by (simp add: window_output_def)
    have same: "List.map_filter (window_output env ?st) ws = List.map_filter (window_output env st) ws"
      using others by (intro outputs_cong) (simp add: window_output_frame)
    have "fst (snd (segment_loop env ws (acc @ [out], ?st, save_progress ?st d)))
            = (acc @ [out]) @ List.map_filter (window_output env ?st) ws"
      using rest Cons.prems(2) unfolding loop_fresh [OF fresh] by (rule Cons.IH)
    then show ?thesis
      unfolding loop_fresh [OF fresh] by (simp add: List.map_filter_simps out same)
  qed
qed

lemma has_output_window_output:
  assumes "\<forall>entry \<in> set (progress st). rec_output (snd entry) \<noteq> None"
  shows "has_output env st w \<longleftrightarrow> window_output env st w \<noteq> None"
proof (cases "map_of (progress st) (window_key env w)")
  case None
  then show ?thesis
    by (auto simp: has_output_def window_output_def dict_has_def split: option.splits)
next
  case (Some data)
  then have "(window_key env w, data) \<in> set (progress st)"
    by (rule map_of_SomeD)
  then have "rec_output data \<noteq> None"
    using assms by auto
  then show ?thesis
    using Some by (simp add: has_output_def window_output_def dict_has_def)
qed

text \<open>
  Two runs on the sample video of 700.5 seconds with windows of 300 seconds, from a fresh
  work directory: one in which every window is dubbed, and one in which the window that
  starts at 300 has no subtitles, so that its audio track is empty and its segment fails.
\<close>

lemma sample_run_complete:
  "dub_video (sample_env []) fresh_dubber fresh_disk ''out.mp4'' 300 =
     \<lparr>run_error = None, run_cancelled = False,
      run_concat = Some [''/srv/work/video/temp_output_0.mp4'',
                         ''/srv/work/video/temp_output_300.mp4'',
                         ''/srv/work/video/temp_output_600.mp4''],
      run_dubber =
        \<lparr>TEMP_DIR = ''work'',
         progress =
           [(''segment_0_300'', \<lparr>rec_output = Some ''work/video/temp_output_0.mp4'', rec_completed = True\<rparr>),
            (''segment_300_600'', \<lparr>rec_output = Some ''work/video/temp_output_300.mp4'', rec_completed = True\<rparr>),
            (''segment_600_700.5'', \<lparr>rec_output = Some ''work/video/temp_output_600.mp4'', rec_completed = True\<rparr>)],
         progress_file = ''work/progress.json'', reference_audio = Some ''ref.wav''\<rparr>,
      run_disk =
        \<lparr>existing = set [''work/progress.json''],
         progress_json = Some
           [(''segment_0_300'', \<lparr>rec_output = Some ''work/video/temp_output_0.mp4'', rec_completed = True\<rparr>),
            (''segment_300_600'', \<lparr>rec_output = Some ''work/video/temp_output_300.mp4'', rec_completed = True\<rparr>),
            (''segment_600_700.5'', \<lparr>rec_output = Some ''work/video/temp_output_600.mp4'', rec_completed = True\<rparr>)],
         writable = True\<rparr>\<rparr>"
  by code_simp

lemma sample_run_with_gap:
  "dub_video (sample_env [300]) fresh_dubber fresh_disk ''out.mp4'' 300 =
     \<lparr>run_error = None, run_cancelled = False,
      run_concat = Some [''/srv/work/video/temp_output_0.mp4'',
                         ''/srv/work/video/temp_output_600.mp4''],
      run_dubber =
        \<lparr>TEMP_DIR = ''work'',
         progress =
           [(''segment_0_300'', \<lparr>rec_output = Some ''work/video/temp_output_0.mp4'', rec_completed = True\<rparr>),
            (''segment_600_700.5'', \<lparr>rec_output = Some ''work/video/temp_output_600.mp4'', rec_completed = True\<rparr>)],
         progress_file = ''work/progress.json'', reference_audio = Some ''ref.wav''\<rparr>,
      run_disk =
        \<lparr>existing = set [''work/progress.json''],
         progress_json = Some
           [(''segment_0_300'', \<lparr>rec_output = Some ''work/video/temp_output_0.mp4'', rec_completed = True\<rparr>),
            (''segment_600_700.5'', \<lparr>rec_output = Some ''work/video/temp_output_600.mp4'', rec_completed = True\<rparr>)],
         writable = True\<rparr>\<rparr>"
  by code_simp

lemma sample_windows:
  "segment_windows (1401 / 2) 300 = Inr [(0, PyInt 300), (300, PyInt 600), (600, PyFloat (1401 / 2))]"
  by code_simp

lemma sample_window_outputs:
  "has_output (sample_env [300]) (fresh_dubber\<lparr>reference_audio := Some ''ref.wav''\<rparr>) (0, PyInt 300)"
  "\<not> has_output (sample_env [300]) (fresh_dubber\<lparr>reference_audio := Some ''ref.wav''\<rparr>) (300, PyInt 600)"
  by code_simp+

text \<open>
  Claim C2, as the code has it.  Take a run of \<open>dub_video\<close> whose ledger validation
  returns, whose voice reference is approved and whose windows are computed.  The run
  ends without invoking the concatenation exactly when no window has an output, neither
  in the ledger nor from \<open>process_segment\<close>, and it then ends with \<open>RuntimeError\<close>.  As
  soon as one window has an output the concatenation is invoked, and its manifest is
  exactly the list of the outputs of the windows that have one, in the order of the
  windows; the run then fails only if the concatenation exits with a non-zero status.  A
  window without an output is left out of the manifest and does not stop the run.
\<close>

theorem concatenation_condition:
  assumes "distinct (map fst (progress st))"
    and "validate_progress (parse_float env) st d = Inr (b, st1, d1)"
    and "voice_reference env = Reference_ready (reference # others)"
    and "segment_windows (video_duration env) segment_duration = Inr windows"
  shows "(run_concat (dub_video env st d output_video_path segment_duration) = None
            \<longleftrightarrow> (\<forall>w \<in> set windows. \<not> has_output env (st1\<lparr>reference_audio := Some reference\<rparr>) w))
       \<and> (run_concat (dub_video env st d output_video_path segment_duration) = None
            \<longrightarrow> run_error (dub_video env st d output_video_path segment_duration) = Some RuntimeError)
       \<and> (\<forall>manifest. run_concat (dub_video env st d output_video_path segment_duration) = Some manifest
            \<longrightarrow> manifest =
                  map (abspath env)
                    (List.map_filter (window_output env (st1\<lparr>reference_audio := Some reference\<rparr>)) windows)
              \<and> manifest \<noteq> []
              \<and> run_error (dub_video env st d output_video_path segment_duration)
                  = (if ffmpeg env manifest output_video_path = 0 then None else Some RuntimeError))
       \<and> (\<forall>w \<in> set windows.
            has_output env (st1\<lparr>reference_audio := Some reference\<rparr>) w
              \<longleftrightarrow> window_output env (st1\<lparr>reference_audio := Some reference\<rparr>) w \<noteq> None)"
proof -
  let ?st2 = "st1\<lparr>reference_audio := Some reference\<rparr>"
  let ?loop = "segment_loop env windows ([], ?st2, d1)"
  let ?outs = "List.map_filter (window_output env ?st2) windows"
  have full: "\<forall>entry \<in> set (progress ?st2). rec_output (snd entry) \<noteq> None"
    using validated_entries_have_output [OF assms(1,2)] by simp
  then have quiet: "fst ?loop = None"
    by (rule segment_loop_no_key_error)
  have keys: "distinct (map (window_key env) windows)"
    using assms(4) by (rule segment_windows_distinct_keys)
  have ds: "fst (snd ?loop) = ?outs"
    using segment_loop_outputs [OF keys quiet] by simp
  obtain st3 d3 where loop: "?loop = (None, (?outs, st3, d3))"
    using quiet ds by (cases ?loop) auto
  have run: "dub_video env st d output_video_path segment_duration =
           \<lparr>run_error = fst (concatenate env ?outs output_video_path), run_cancelled = False,
            run_concat = snd (concatenate env ?outs output_video_path), run_dubber = st3, run_disk = d3\<rparr>"
    using assms(2,3,4) loop by (rule dub_video_after_loop)
  have empty_iff: "?outs = [] \<longleftrightarrow> (\<forall>w \<in> set windows. \<not> has_output env ?st2 w)"
    using segment_loop_empty_iff [OF quiet] ds by simp
  have none: "run_concat (dub_video env st d output_video_path segment_duration) = None \<longleftrightarrow> ?outs = []"
    unfolding run by (simp add: concatenate_def Let_def)
  have err: "?outs = [] \<longrightarrow> run_error (dub_video env st d output_video_path segment_duration) = Some RuntimeError"
    unfolding run by (simp add: concatenate_def)
  have some: "?outs \<noteq> [] \<longrightarrow>
       run_concat (dub_video env st d output_video_path segment_duration) = Some (map (abspath env) ?outs)
       \<and> run_error (dub_video env st d output_video_path segment_duration)
           = (if ffmpeg env (map (abspath env) ?outs) output_video_path = 0 then None else Some RuntimeError)"
    unfolding run by (simp add: concatenate_def Let_def)
  show ?thesis
  proof (intro conjI allI impI ballI)
    show "run_concat (dub_video env st d output_video_path segment_duration) = None
            \<longleftrightarrow> (\<forall>w \<in> set windows. \<not> has_output env ?st2 w)"
      using none empty_iff by simp
  next
    assume "run_concat (dub_video env st d output_video_path segment_duration) = None"
    then show "run_error (dub_video env st d output_video_path segment_duration) = Some RuntimeError"
      using none err by simp
  next
    fix manifest
    assume m: "run_concat (dub_video env st d output_video_path segment_duration) = Some manifest"
    then have ne: "?outs \<noteq> []"
      using none by auto
    then show eq: "manifest = map (abspath env) ?outs"
      using some m by simp
    show "manifest \<noteq> []"
      using eq ne by simp
    show "run_error (dub_video env st d output_video_path segment_duration)
                  = (if ffmpeg env manifest output_video_path = 0 then None else Some RuntimeError)"
      using some ne eq by simp
  next
    fix w
    show "has_output env ?st2 w \<longleftrightarrow> window_output env ?st2 w \<noteq> None"
      using full by (rule has_output_window_output)
  qed
qed

theorem concatenation_condition_witness:
  "has_output (sample_env [300]) (fresh_dubber\<lparr>reference_audio := Some ''ref.wav''\<rparr>) (0, PyInt 300)
   \<and> run_concat (dub_video (sample_env [300]) fresh_dubber fresh_disk ''out.mp4'' 300) \<noteq> None"
proof -
  have keys: "distinct (map fst (progress fresh_dubber))"
    by (simp add: fresh_dubber_def)
  have v: "validate_progress (parse_float (sample_env [300])) fresh_dubber fresh_disk
             = Inr (True, fresh_dubber, fresh_disk)"
    by (simp add: validate_progress_def fresh_dubber_def)
  have r: "voice_reference (sample_env [300]) = Reference_ready (''ref.wav'' # [])"
    by (simp add: sample_env_def)
  have w: "segment_windows (video_duration (sample_env [300])) 300
             = Inr [(0, PyInt 300), (300, PyInt 600), (600, PyFloat (1401 / 2))]"
    using sample_windows by (simp add: sample_env_def)
  note cond = concatenation_condition [OF keys v r w, of "''out.mp4''", THEN conjunct1]
  show ?thesis
    using cond sample_window_outputs(1) by auto
qed

text \<open>
  Claim C2 as stated fails: in the run with the failing window, the segment of the
  window \<open>[300, 600)\<close> is not in the ledger and \<open>process_segment\<close> returns \<open>None\<close> for it,
  yet the concatenation is invoked on the two other clips and the run ends without an
  error.
\<close>

theorem failed_window_still_concatenated:
  "\<not> has_output (sample_env [300]) (fresh_dubber\<lparr>reference_audio := Some ''ref.wav''\<rparr>) (300, PyInt 600)
   \<and> run_error (dub_video (sample_env [300]) fresh_dubber fresh_disk ''out.mp4'' 300) = None
   \<and> run_concat (dub_video (sample_env [300]) fresh_dubber fresh_disk ''out.mp4'' 300)
       = Some [''/srv/work/video/temp_output_0.mp4'', ''/srv/work/video/temp_output_600.mp4'']"
  using sample_window_outputs(2) by (simp add: sample_run_with_gap)

text \<open>
  Claim C6, as the code has it.  Every key in the ledger at the end of a run of
  \<open>dub_video\<close> was there at the start or is \<open>segment_<start>_<end>\<close> for a window of the
  partition: \<open>start\<close> is the integer \<open>k * segment_duration\<close>, below \<open>int(duration)\<close> for
  a positive window size, and \<open>end\<close> is
  \<open>min(start + segment_duration, duration)\<close>, that is the integer
  \<open>start + segment_duration\<close> unless the duration is smaller, in which case it is the
  duration itself, a float that is written as it is and not truncated.
\<close>

theorem ledger_keys_written:
  "\<forall>key \<in> fst ` set (progress (run_dubber (dub_video env st d output_video_path segment_duration))).
      key \<in> fst ` set (progress st)
      \<or> (\<exists>k::nat.
            key = segment_key (repr_float env) (int k * segment_duration)
                    (if video_duration env < of_int (int k * segment_duration + segment_duration)
                     then PyFloat (video_duration env)
                     else PyInt (int k * segment_duration + segment_duration))
            \<and> (0 < segment_duration \<longrightarrow> int k * segment_duration < py_int (video_duration env)))"
proof
  fix key
  assume "key \<in> fst ` set (progress (run_dubber (dub_video env st d output_video_path segment_duration)))"
  then have "key \<in> fst ` set (progress st)
       \<union> (case segment_windows (video_duration env) segment_duration of
            Inl e \<Rightarrow> {}
          | Inr windows \<Rightarrow> window_key env ` set windows)"
    using dub_video_keys by blast
  then consider (old) "key \<in> fst ` set (progress st)"
    | (new) windows w where "segment_windows (video_duration env) segment_duration = Inr windows"
        "w \<in> set windows" "key = window_key env w"
    by (auto split: sum.splits)
  then show "key \<in> fst ` set (progress st)
      \<or> (\<exists>k::nat.
            key = segment_key (repr_float env) (int k * segment_duration)
                    (if video_duration env < of_int (int k * segment_duration + segment_duration)
                     then PyFloat (video_duration env)
                     else PyInt (int k * segment_duration + segment_duration))
            \<and> (0 < segment_duration \<longrightarrow> int k * segment_duration < py_int (video_duration env)))"
  proof cases
    case old
    then show ?thesis by simp
  next
    case new
    from segment_windows_members [OF new(1,2)] obtain k :: nat where k:
      "fst w = int k * segment_duration"
      "snd w = py_min (int k * segment_duration + segment_duration) (video_duration env)"
      "0 < segment_duration \<longrightarrow> 0 \<le> fst w \<and> fst w < py_int (video_duration env)"
      by blast
    have "key = segment_key (repr_float env) (int k * segment_duration)
            (if video_duration env < of_int (int k * segment_duration + segment_duration)
             then PyFloat (video_duration env)
             else PyInt (int k * segment_duration + segment_duration))"
      using new(3) k(1,2) by (simp add: window_key_def py_min_def)
    moreover have "0 < segment_duration \<longrightarrow> int k * segment_duration < py_int (video_duration env)"
      using k(1,3) by simp
    ultimately show ?thesis by blast
  qed
qed

theorem ledger_keys_written_witness:
  "''segment_600_700.5''
     \<in> fst ` set (progress (run_dubber (dub_video (sample_env []) fresh_dubber fresh_disk ''out.mp4'' 300)))
   \<and> (\<exists>k::nat. ''segment_600_700.5'' =
         segment_key (repr_float (sample_env [])) (int k * 300)
           (if video_duration (sample_env []) < of_int (int k * 300 + 300)
            then PyFloat (video_duration (sample_env []))
            else PyInt (int k * 300 + 300))
         \<and> int k * 300 < py_int (video_duration (sample_env [])))"
proof -
  have mem: "''segment_600_700.5''
     \<in> fst ` set (progress (run_dubber (dub_video (sample_env []) fresh_dubber fresh_disk ''out.mp4'' 300)))"
    by (simp add: sample_run_complete)
  have new: "''segment_600_700.5'' \<notin> fst ` set (progress fresh_dubber)"
    by (simp add: fresh_dubber_def)
  from ledger_keys_written [of "sample_env []" fresh_dubber fresh_disk "''out.mp4''" 300] mem
  have "''segment_600_700.5'' \<in> fst ` set (progress fresh_dubber)
      \<or> (\<exists>k::nat. ''segment_600_700.5'' =
         segment_key (repr_float (sample_env [])) (int k * 300)
           (if video_duration (sample_env []) < of_int (int k * 300 + 300)
            then PyFloat (video_duration (sample_env []))
            else PyInt (int k * 300 + 300))
         \<and> ((0::int) < 300 \<longrightarrow> int k * 300 < py_int (video_duration (sample_env []))))"
    by (rule bspec)
  then show ?thesis
    using mem new by auto
qed

text \<open>
  Claim C6 as stated fails on the last window: in the complete run the third key ends in
  the duration \<open>700.5\<close>, not in its truncation \<open>700\<close>.
\<close>

theorem last_key_keeps_float_duration:
  "map fst (progress (run_dubber (dub_video (sample_env []) fresh_dubber fresh_disk ''out.mp4'' 300)))
     = [''segment_0_300'', ''segment_300_600'', ''segment_600_700.5'']
   \<and> py_int (video_duration (sample_env [])) = 700"
proof -
  have "py_int (video_duration (sample_env [])) = 700"
    by code_simp
  then show ?thesis
    by (simp add: sample_run_complete)
qed

end
